theory Spec2Isabelle
  imports Complex_Main
begin

section \<open>JavaScript numbers\<close>

subsection \<open>Doubles\<close>

text \<open>
  A JavaScript number is an IEEE 754 double: not a number, an infinity with its sign, or
  a finite value with its sign (\<open>True\<close> for minus) and its magnitude, so that the two
  zeros differ. Arithmetic is exact arithmetic on rationals followed by rounding to the
  nearest double, ties to even.
\<close>

datatype number = NaN | Infinity bool | Finite bool rat

definition pow2 :: "int \<Rightarrow> rat" where
  "pow2 k = (if 0 \<le> k then 2 ^ nat k else 1 / 2 ^ nat (- k))"

fun bitlen :: "nat \<Rightarrow> nat" where
  "bitlen n = (if n = 0 then 0 else 1 + bitlen (n div 2))"

declare bitlen.simps [simp del]

text \<open>
  The integer \<open>k\<close> with \<open>2 ^ k \<le> q < 2 ^ (k + 1)\<close>, for \<open>q > 0\<close>: the integer part
  of \<open>q \<ge> 1\<close> has \<open>k + 1\<close> bits, and for \<open>q < 1\<close> the least power of two that is
  at least \<open>1 / q\<close> is \<open>2 ^ - k\<close>.
\<close>

definition ilog2 :: "rat \<Rightarrow> int" where
  "ilog2 q =
     (if 1 \<le> q then int (bitlen (nat \<lfloor>q\<rfloor>)) - 1
      else - int (bitlen (nat (\<lceil>1 / q\<rceil> - 1))))"

definition round_half_even :: "rat \<Rightarrow> int" where
  "round_half_even r =
     (let f = \<lfloor>r\<rfloor>; d = r - of_int f
      in if d < 1 / 2 then f else if 1 / 2 < d then f + 1 else if even f then f else f + 1)"

text \<open>
  The double nearest to a magnitude \<open>q \<ge> 0\<close>: 53 significant bits, the least exponent
  \<open>-1074\<close> (subnormal numbers), and infinity from \<open>2 ^ 1024\<close> on.
\<close>

definition round_double :: "bool \<Rightarrow> rat \<Rightarrow> number" where
  "round_double s q =
     (if q = 0 then Finite s 0
      else
        let e = max (ilog2 q - 52) (- 1074);
            v = of_int (round_half_even (q / pow2 e)) * pow2 e
        in if pow2 1024 \<le> v then Infinity s else Finite s v)"

text \<open>A decimal literal of the source, read as the nearest double.\<close>

definition lit :: "rat \<Rightarrow> number" where
  "lit q = (if q < 0 then round_double True (- q) else round_double False q)"

definition signed :: "bool \<Rightarrow> rat \<Rightarrow> rat" where
  "signed s m = (if s then - m else m)"

fun fneg :: "number \<Rightarrow> number" where
  "fneg NaN = NaN"
| "fneg (Infinity s) = Infinity (\<not> s)"
| "fneg (Finite s m) = Finite (\<not> s) m"

fun fadd :: "number \<Rightarrow> number \<Rightarrow> number" where
  "fadd NaN y = NaN"
| "fadd x NaN = NaN"
| "fadd (Infinity s) (Infinity t) = (if s = t then Infinity s else NaN)"
| "fadd (Infinity s) (Finite t b) = Infinity s"
| "fadd (Finite s a) (Infinity t) = Infinity t"
| "fadd (Finite s a) (Finite t b) =
     (let v = signed s a + signed t b
      in if v = 0 then Finite (s \<and> t) 0 else round_double (v < 0) \<bar>v\<bar>)"

definition fsub :: "number \<Rightarrow> number \<Rightarrow> number" where
  "fsub x y = fadd x (fneg y)"

fun fmul :: "number \<Rightarrow> number \<Rightarrow> number" where
  "fmul NaN y = NaN"
| "fmul x NaN = NaN"
| "fmul (Infinity s) (Infinity t) = Infinity (s \<noteq> t)"
| "fmul (Infinity s) (Finite t b) = (if b = 0 then NaN else Infinity (s \<noteq> t))"
| "fmul (Finite s a) (Infinity t) = (if a = 0 then NaN else Infinity (s \<noteq> t))"
| "fmul (Finite s a) (Finite t b) = round_double (s \<noteq> t) (a * b)"

fun fdiv :: "number \<Rightarrow> number \<Rightarrow> number" where
  "fdiv NaN y = NaN"
| "fdiv x NaN = NaN"
| "fdiv (Infinity s) (Infinity t) = NaN"
| "fdiv (Infinity s) (Finite t b) = Infinity (s \<noteq> t)"
| "fdiv (Finite s a) (Infinity t) = Finite (s \<noteq> t) 0"
| "fdiv (Finite s a) (Finite t b) =
     (if b = 0 then (if a = 0 then NaN else Infinity (s \<noteq> t))
      else round_double (s \<noteq> t) (a / b))"

fun flt :: "number \<Rightarrow> number \<Rightarrow> bool" where
  "flt NaN y = False"
| "flt x NaN = False"
| "flt (Infinity s) (Infinity t) = (s \<and> \<not> t)"
| "flt (Infinity s) (Finite t b) = s"
| "flt (Finite s a) (Infinity t) = (\<not> t)"
| "flt (Finite s a) (Finite t b) = (signed s a < signed t b)"

fun fle :: "number \<Rightarrow> number \<Rightarrow> bool" where
  "fle NaN y = False"
| "fle x NaN = False"
| "fle (Infinity s) (Infinity t) = (s \<or> \<not> t)"
| "fle (Infinity s) (Finite t b) = s"
| "fle (Finite s a) (Infinity t) = (\<not> t)"
| "fle (Finite s a) (Finite t b) = (signed s a \<le> signed t b)"

text \<open>Strict equality \<open>===\<close> of two numbers: the two zeros are equal, NaN equals nothing.\<close>

fun feq :: "number \<Rightarrow> number \<Rightarrow> bool" where
  "feq NaN y = False"
| "feq x NaN = False"
| "feq (Infinity s) (Infinity t) = (s = t)"
| "feq (Infinity s) (Finite t b) = False"
| "feq (Finite s a) (Infinity t) = False"
| "feq (Finite s a) (Finite t b) = (signed s a = signed t b)"

subsection \<open>Numbers as text\<close>

definition digit_char :: "nat \<Rightarrow> char" where
  "digit_char d = char_of (48 + d)"

fun digits :: "nat \<Rightarrow> string" where
  "digits n = (if n < 10 then [digit_char n] else digits (n div 10) @ [digit_char (n mod 10)])"

declare digits.simps [simp del]

text \<open>
  \<open>Number::toString\<close> for a double of at least \<open>10 ^ 21\<close>, which is a natural number
  \<open>x\<close>: the fewest digits \<open>s\<close>, \<open>k\<close> of them, with \<open>s * 10 ^ (n - k)\<close> read back as
  \<open>x\<close>; among several the nearest to \<open>x\<close>, then the even one. Seventeen digits always
  suffice. The text is in exponent form.
\<close>

definition candidates :: "nat \<Rightarrow> nat \<Rightarrow> (nat \<times> nat) list" where
  "candidates x k =
     concat (map (\<lambda>n.
       concat (map (\<lambda>s.
         if k \<le> n \<and> 10 ^ (k - 1) \<le> s \<and> s < 10 ^ k \<and>
            round_double False (of_int (int (s * 10 ^ (n - k)))) = Finite False (of_int (int x))
         then [(s, n)] else [])
       [x div 10 ^ (n - k), x div 10 ^ (n - k) + 1]))
     [length (digits x), length (digits x) + 1])"

definition distance :: "nat \<Rightarrow> nat \<Rightarrow> nat \<times> nat \<Rightarrow> int" where
  "distance x k c = \<bar>int (fst c * 10 ^ (snd c - k)) - int x\<bar>"

fun nearest :: "nat \<Rightarrow> nat \<Rightarrow> (nat \<times> nat) \<Rightarrow> (nat \<times> nat) list \<Rightarrow> nat \<times> nat" where
  "nearest x k best [] = best"
| "nearest x k best (c # cs) =
     (if distance x k c < distance x k best \<or>
         (distance x k c = distance x k best \<and> even (fst c) \<and> odd (fst best))
      then nearest x k c cs else nearest x k best cs)"

fun shortest :: "nat \<Rightarrow> nat list \<Rightarrow> (nat \<times> nat \<times> nat) option" where
  "shortest x [] = None"
| "shortest x (k # ks) =
     (case candidates x k of
        [] \<Rightarrow> shortest x ks
      | c # cs \<Rightarrow> (case nearest x k c cs of (s, n) \<Rightarrow> Some (s, n, k)))"

definition Number_toString_large :: "nat \<Rightarrow> string" where
  "Number_toString_large x =
     (case shortest x [1..<18] of
        None \<Rightarrow> digits x
      | Some (s, n, k) \<Rightarrow>
          (if k = 1 then digits s
           else take 1 (digits s) @ ''.'' @ drop 1 (digits s)) @ ''e+'' @ digits (n - 1))"

text \<open>
  \<open>Number.prototype.toFixed\<close> with \<open>f\<close> digits after the point, \<open>f\<close> from 0 to 100.
  A finite magnitude below \<open>10 ^ 21\<close> is rounded to the nearest multiple of \<open>10 ^ - f\<close>,
  the larger of two equally near; minus zero has no sign.
\<close>

definition toFixed :: "number \<Rightarrow> nat \<Rightarrow> string" where
  "toFixed x f =
     (case x of
        NaN \<Rightarrow> ''NaN''
      | Infinity s \<Rightarrow> (if s then ''-Infinity'' else ''Infinity'')
      | Finite s m \<Rightarrow>
          (if s \<and> 0 < m then ''-'' else []) @
          (if 10 ^ 21 \<le> m then Number_toString_large (nat \<lfloor>m\<rfloor>)
           else
             let n = nat \<lfloor>m * 10 ^ f + 1 / 2\<rfloor>;
                 ds = digits n;
                 ds = (if length ds \<le> f then replicate (f + 1 - length ds) CHR ''0'' @ ds else ds)
             in if f = 0 then ds
                else take (length ds - f) ds @ ''.'' @ drop (length ds - f) ds))"


section \<open>The presentation app of app.js\<close>

text \<open>
  The class \<open>PresentationApp\<close> is embedded as a record of its fields together with the
  part of the browser it acts on: the class lists of the slides, the two buttons, the two
  counter spans, the pending \<open>setTimeout\<close> callbacks, the charts of the chart library
  that are alive, and the console. Every method is a function from state to state.
  A slide number is a JavaScript number, any double: \<open>goToSlide\<close> and \<open>setSlide\<close>
  compare and store what they are given, whole or not. Calls with a value that is not a
  number are not modelled.
\<close>

subsection \<open>State\<close>

text \<open>
  The text of an element: a string of the source, or a number the source assigns to
  \<open>textContent\<close>, which the page shows as text.
\<close>

datatype dom_text = Text string | NumberText number

record button =
  disabled :: bool
  textContent :: dom_text

text \<open>The two callbacks the class hands to \<open>setTimeout\<close>.\<close>

datatype callback = ShowSlide | InitChart

datatype js_error = Error string

datatype log_arg = LogString string | LogNumber number

datatype log_entry = Log "log_arg list" | LogError "log_arg list"

text \<open>What the page holds when the constructor runs.\<close>

record dom =
  dom_slides :: "bool list"
  dom_prevBtn :: "button option"
  dom_nextBtn :: "button option"
  dom_currentSlideSpan :: "dom_text option"
  dom_totalSlidesSpan :: "dom_text option"

record app =
  currentSlide :: number
  totalSlides :: number
  isTransitioning :: bool
  slides :: "bool list"
  prevBtn :: "button option"
  nextBtn :: "button option"
  currentSlideSpan :: "dom_text option"
  totalSlidesSpan :: "dom_text option"
  bookmakerChart :: "nat option"
  timers :: "(nat \<times> callback) list"
  liveCharts :: "nat list"
  chartsCreated :: nat
  console :: "log_entry list"

text \<open>
  \<open>slides\<close> holds, for each element of the NodeList, whether its class list has
  \<open>active\<close>. \<open>timers\<close> are the callbacks scheduled and not yet run, each with its
  delay in milliseconds, in the order of scheduling. \<open>liveCharts\<close> are the handles of
  the charts constructed and not destroyed; \<open>chartsCreated\<close> numbers them.
\<close>

definition setTimeout :: "callback \<Rightarrow> nat \<Rightarrow> app \<Rightarrow> app" where
  "setTimeout t ms s = s\<lparr>timers := timers s @ [(ms, t)]\<rparr>"

definition console_log :: "log_arg list \<Rightarrow> app \<Rightarrow> app" where
  "console_log args s = s\<lparr>console := console s @ [Log args]\<rparr>"

definition console_error :: "log_arg list \<Rightarrow> app \<Rightarrow> app" where
  "console_error args s = s\<lparr>console := console s @ [LogError args]\<rparr>"

text \<open>
  \<open>this.slides[x]\<close> is an element only when \<open>x\<close> is a whole number from 0 to below
  the length of the NodeList (minus zero names index 0); for every other number it is
  \<open>undefined\<close>, and the source guards every use with \<open>if (this.slides[x])\<close>.
  A NodeList has fewer than \<open>2 ^ 32\<close> elements, so that every index below its length
  is written in digits alone, as a property key must be to name an element.
\<close>

definition slide_index :: "number \<Rightarrow> nat option" where
  "slide_index x =
     (case x of
        Finite s m \<Rightarrow>
          if 0 \<le> m \<and> of_int \<lfloor>m\<rfloor> = m \<and> (\<not> s \<or> m = 0) then Some (nat \<lfloor>m\<rfloor>) else None
      | _ \<Rightarrow> None)"

definition classList_set :: "number \<Rightarrow> bool \<Rightarrow> bool list \<Rightarrow> bool list" where
  "classList_set x v xs =
     (case slide_index x of
        Some i \<Rightarrow> if i < length xs then xs[i := v] else xs
      | None \<Rightarrow> xs)"

subsection \<open>Display\<close>

definition showCurrentSlide :: "app \<Rightarrow> app" where
  "showCurrentSlide s =
     (let s1 = s\<lparr>slides := map (\<lambda>_. False) (slides s)\<rparr>
      in s1\<lparr>slides := classList_set (fsub (currentSlide s1) (lit 1)) True (slides s1)\<rparr>)"

definition updateSlideCounter :: "app \<Rightarrow> app" where
  "updateSlideCounter s =
     (let s1 = (case currentSlideSpan s of
                  None \<Rightarrow> s
                | Some _ \<Rightarrow> s\<lparr>currentSlideSpan := Some (NumberText (currentSlide s))\<rparr>)
      in (case totalSlidesSpan s1 of
            None \<Rightarrow> s1
          | Some _ \<Rightarrow> s1\<lparr>totalSlidesSpan := Some (NumberText (totalSlides s1))\<rparr>))"

text \<open>The arrows of the labels are written as their UTF-8 bytes.\<close>

definition label_previous :: string where
  "label_previous = [CHR 0xE2, CHR 0x86, CHR 0x90] @ '' Previous''"

definition label_next :: string where
  "label_next = ''Next '' @ [CHR 0xE2, CHR 0x86, CHR 0x92]"

definition updateNavigationButtons :: "app \<Rightarrow> app" where
  "updateNavigationButtons s =
     (let s1 = (case prevBtn s of
                  None \<Rightarrow> s
                | Some _ \<Rightarrow>
                    s\<lparr>prevBtn := Some \<lparr>disabled = feq (currentSlide s) (lit 1),
                       textContent =
                         Text (if feq (currentSlide s) (lit 1) then ''Start''
                               else label_previous)\<rparr>\<rparr>)
      in (case nextBtn s1 of
            None \<Rightarrow> s1
          | Some _ \<Rightarrow>
              s1\<lparr>nextBtn := Some \<lparr>disabled = feq (currentSlide s1) (totalSlides s1),
                 textContent =
                   Text (if feq (currentSlide s1) (totalSlides s1) then ''End''
                         else label_next)\<rparr>\<rparr>))"

subsection \<open>Navigation\<close>

definition goToSlide :: "number \<Rightarrow> app \<Rightarrow> app" where
  "goToSlide slideNumber s =
     (if flt slideNumber (lit 1) \<or> flt (totalSlides s) slideNumber \<or> isTransitioning s then s
      else
        let s1 = s\<lparr>isTransitioning := True\<rparr>;
            s2 = s1\<lparr>slides := classList_set (fsub (currentSlide s1) (lit 1)) False (slides s1)\<rparr>;
            s3 = s2\<lparr>currentSlide := slideNumber\<rparr>
        in setTimeout ShowSlide 50 s3)"

text \<open>The callback of the \<open>setTimeout\<close> in \<open>goToSlide\<close>.\<close>

definition showSlideCallback :: "app \<Rightarrow> app" where
  "showSlideCallback s =
     (let s1 = showCurrentSlide s;
          s2 = updateSlideCounter s1;
          s3 = updateNavigationButtons s2;
          s4 = (if feq (currentSlide s3) (lit 8) then setTimeout InitChart 200 s3 else s3)
      in s4\<lparr>isTransitioning := False\<rparr>)"

definition nextSlide :: "app \<Rightarrow> app" where
  "nextSlide s =
     (if isTransitioning s \<or> fle (totalSlides s) (currentSlide s) then s
      else goToSlide (fadd (currentSlide s) (lit 1))
             (console_log [LogString ''Moving to next slide:'',
                           LogNumber (fadd (currentSlide s) (lit 1))] s))"

definition previousSlide :: "app \<Rightarrow> app" where
  "previousSlide s =
     (if isTransitioning s \<or> fle (currentSlide s) (lit 1) then s
      else goToSlide (fsub (currentSlide s) (lit 1))
             (console_log [LogString ''Moving to previous slide:'',
                           LogNumber (fsub (currentSlide s) (lit 1))] s))"

definition getCurrentSlide :: "app \<Rightarrow> number" where
  "getCurrentSlide s = currentSlide s"

definition getTotalSlides :: "app \<Rightarrow> number" where
  "getTotalSlides s = totalSlides s"

definition setSlide :: "number \<Rightarrow> app \<Rightarrow> app" where
  "setSlide slideNumber s = goToSlide slideNumber s"

subsection \<open>The chart\<close>

text \<open>
  The chart library is outside the repository. \<open>new Chart\<close> either returns a chart,
  which is alive from then on, or throws; \<open>destroy\<close> ends the life of a chart. Whether
  the page has the canvas and whether the constructor throws is given with each call.
\<close>

datatype ctor_outcome = Constructs | Throws js_error

record chart_env =
  canvasFound :: bool
  chartCtor :: ctor_outcome

definition newChart :: "ctor_outcome \<Rightarrow> app \<Rightarrow> js_error + (nat \<times> app)" where
  "newChart oc s =
     (case oc of
        Throws e \<Rightarrow> Inl e
      | Constructs \<Rightarrow>
          Inr (chartsCreated s,
               s\<lparr>liveCharts := liveCharts s @ [chartsCreated s],
                 chartsCreated := Suc (chartsCreated s)\<rparr>))"

definition destroy :: "nat \<Rightarrow> app \<Rightarrow> app" where
  "destroy h s = s\<lparr>liveCharts := removeAll h (liveCharts s)\<rparr>"

text \<open>
  The result is \<open>Inr\<close> when the method returns and \<open>Inl\<close> when an exception leaves it.
  The \<open>try\<close> block is the \<open>case\<close> on \<open>newChart\<close>; its \<open>Inl\<close> branch is the
  \<open>catch\<close>.
\<close>

definition initializeBookmakerChart :: "chart_env \<Rightarrow> app \<Rightarrow> js_error + app" where
  "initializeBookmakerChart env s =
     (if \<not> canvasFound env then Inr (console_log [LogString ''Chart canvas not found''] s)
      else
        let s1 = (case bookmakerChart s of
                    None \<Rightarrow> s
                  | Some h \<Rightarrow> (destroy h s)\<lparr>bookmakerChart := None\<rparr>)
        in (case newChart (chartCtor env) s1 of
              Inr (h, s2) \<Rightarrow>
                Inr (console_log [LogString ''Chart initialized successfully'']
                       (s2\<lparr>bookmakerChart := Some h\<rparr>))
            | Inl (Error msg) \<Rightarrow>
                Inr (console_error [LogString ''Error creating chart:'', LogString msg] s1)))"

subsection \<open>Construction\<close>

text \<open>
  \<open>setupEventListeners\<close> changes no field: the handlers it registers for the buttons,
  the arrow keys and swipes call \<open>nextSlide\<close> and \<open>previousSlide\<close>, which are events
  of a run below.
\<close>

definition init :: "app \<Rightarrow> app" where
  "init s =
     (let s1 = updateSlideCounter s;
          s2 = updateNavigationButtons s1;
          s3 = showCurrentSlide s2
      in if feq (currentSlide s3) (lit 8) then setTimeout InitChart 500 s3 else s3)"

definition PresentationApp :: "dom \<Rightarrow> app" where
  "PresentationApp d =
     init \<lparr>currentSlide = lit 1, totalSlides = lit 12, isTransitioning = False,
           slides = dom_slides d, prevBtn = dom_prevBtn d, nextBtn = dom_nextBtn d,
           currentSlideSpan = dom_currentSlideSpan d,
           totalSlidesSpan = dom_totalSlidesSpan d,
           bookmakerChart = None, timers = [], liveCharts = [], chartsCreated = 0,
           console = []\<rparr>"

subsection \<open>Runs\<close>

text \<open>
  What can happen to the app after construction: a call of one of its methods, or a
  pending callback runs. \<open>Timeout k env\<close> runs the \<open>k\<close>-th pending callback; the
  browser runs them by due time, so every order the browser can produce is among the
  orders allowed here. An exception that leaves a callback or a call ends it and keeps
  the state it had reached.
\<close>

datatype event =
    CallNextSlide
  | CallPreviousSlide
  | CallGoToSlide number
  | CallSetSlide number
  | CallInitChart chart_env
  | Timeout nat chart_env

definition returned :: "app \<Rightarrow> js_error + app \<Rightarrow> app" where
  "returned s r = (case r of Inr s' \<Rightarrow> s' | Inl _ \<Rightarrow> s)"

definition runCallback :: "chart_env \<Rightarrow> callback \<Rightarrow> app \<Rightarrow> app" where
  "runCallback env t s =
     (case t of
        ShowSlide \<Rightarrow> showSlideCallback s
      | InitChart \<Rightarrow> returned s (initializeBookmakerChart env s))"

definition drop_nth :: "nat \<Rightarrow> 'a list \<Rightarrow> 'a list" where
  "drop_nth k xs = take k xs @ drop (Suc k) xs"

fun step :: "event \<Rightarrow> app \<Rightarrow> app" where
  "step CallNextSlide s = nextSlide s"
| "step CallPreviousSlide s = previousSlide s"
| "step (CallGoToSlide n) s = goToSlide n s"
| "step (CallSetSlide n) s = setSlide n s"
| "step (CallInitChart env) s = returned s (initializeBookmakerChart env s)"
| "step (Timeout k env) s =
     (if k < length (timers s)
      then runCallback env (snd (timers s ! k)) (s\<lparr>timers := drop_nth k (timers s)\<rparr>)
      else s)"

fun run :: "event list \<Rightarrow> app \<Rightarrow> app" where
  "run [] s = s"
| "run (e # es) s = run es (step e s)"

section \<open>The utilities of \<open>DataUtils\<close>\<close>

subsection \<open>The arbitrage calculator\<close>

datatype js_value = JSNumber number | JSString string

definition calculateArbitrageProfit :: "number \<Rightarrow> number \<Rightarrow> js_value" where
  "calculateArbitrageProfit odds1 odds2 =
     (let impliedProb1 = fdiv (lit 1) odds1;
          impliedProb2 = fdiv (lit 1) odds2;
          totalImpliedProb = fadd impliedProb1 impliedProb2
      in if flt totalImpliedProb (lit 1)
         then
           let profit = fmul (fdiv (fsub (lit 1) totalImpliedProb) totalImpliedProb) (lit 100)
           in JSString (toFixed profit 2)
         else JSNumber (lit 0))"

section \<open>Example inputs and the properties of states\<close>

subsection \<open>Example inputs\<close>

definition dom12 :: dom where
  "dom12 = \<lparr>dom_slides = replicate 12 False,
            dom_prevBtn = Some \<lparr>disabled = False, textContent = Text []\<rparr>,
            dom_nextBtn = Some \<lparr>disabled = False, textContent = Text []\<rparr>,
            dom_currentSlideSpan = Some (Text ''1''),
            dom_totalSlidesSpan = Some (Text ''12'')\<rparr>"

definition env_ok :: chart_env where
  "env_ok = \<lparr>canvasFound = True, chartCtor = Constructs\<rparr>"

definition env_throws :: chart_env where
  "env_throws = \<lparr>canvasFound = True, chartCtor = Throws (Error ''Canvas is already in use'')\<rparr>"

subsection \<open>The targets of the jumps of a run\<close>

fun target :: "event \<Rightarrow> number option" where
  "target (CallGoToSlide n) = Some n"
| "target (CallSetSlide n) = Some n"
| "target e = None"

text \<open>No jump of the run is given NaN.\<close>

definition numeric_targets :: "event list \<Rightarrow> bool" where
  "numeric_targets es = list_all (\<lambda>e. target e \<noteq> Some NaN) es"




subsection \<open>Invariants of a run\<close>

definition nav_inv :: "app \<Rightarrow> bool" where
  "nav_inv s =
     (fle (lit 1) (currentSlide s) \<and> fle (currentSlide s) (lit 12) \<and>
      totalSlides s = lit 12)"



definition one_hot :: "nat \<Rightarrow> nat \<Rightarrow> bool list" where
  "one_hot n k = (replicate n False)[k := True]"



text \<open>
  The charts alive are exactly the one \<open>this.bookmakerChart\<close> refers to, if any, and
  its handle is older than the next one the library will hand out.
\<close>

definition chart_inv :: "app \<Rightarrow> bool" where
  "chart_inv s =
     (case bookmakerChart s of
        None \<Rightarrow> liveCharts s = []
      | Some h \<Rightarrow> liveCharts s = [h] \<and> h < chartsCreated s)"

subsection \<open>Signs of numbers\<close>

text \<open>A number above zero, and a number that is zero or above it, infinity included.\<close>

definition positive :: "number \<Rightarrow> bool" where
  "positive x = (case x of NaN \<Rightarrow> False | Infinity s \<Rightarrow> \<not> s | Finite s m \<Rightarrow> \<not> s \<and> 0 < m)"

definition nonnegative :: "number \<Rightarrow> bool" where
  "nonnegative x = (case x of NaN \<Rightarrow> False | Infinity s \<Rightarrow> \<not> s | Finite s m \<Rightarrow> \<not> s \<and> 0 \<le> m)"

text \<open>A number that is at least the least double above zero.\<close>

definition above_least :: "number \<Rightarrow> bool" where
  "above_least x =
     (case x of NaN \<Rightarrow> False | Infinity s \<Rightarrow> \<not> s | Finite s m \<Rightarrow> \<not> s \<and> pow2 (- 1074) \<le> m)"

text \<open>
  The text of a number above zero: a returned number above zero, or a returned string
  that is \<open>Infinity\<close> or starts without a minus sign and has a digit other than \<open>0\<close>.
\<close>

definition positive_percentage :: "js_value \<Rightarrow> bool" where
  "positive_percentage v =
     (case v of
        JSNumber n \<Rightarrow> positive n
      | JSString str \<Rightarrow>
          str = ''Infinity'' \<or>
          (take 1 str \<noteq> ''-'' \<and> list_ex (\<lambda>c. c \<in> set ''123456789'') str))"

text \<open>A text without a minus sign that has a digit other than \<open>0\<close>.\<close>

definition plain :: "string \<Rightarrow> bool" where
  "plain str = (str \<noteq> [] \<and> CHR ''-'' \<notin> set str \<and> (\<exists>c\<in>set str. c \<in> set ''123456789''))"

section \<open>Evaluating numbers\<close>

lemma bitlen_0: "bitlen 0 = 0"
  by (simp add: bitlen.simps)

lemma bitlen_1: "bitlen 1 = 1"
  by (simp add: bitlen.simps [of 1] bitlen.simps [of 0] del: One_nat_def)

lemma bitlen_Suc_0: "bitlen (Suc 0) = 1"
  using bitlen_1 by simp

lemma bitlen_numeral: "bitlen (numeral k) = 1 + bitlen (numeral k div 2)"
  by (subst bitlen.simps) simp

lemma floor_rat_numeral: "\<lfloor>(numeral a :: rat) / numeral b\<rfloor> = numeral a div numeral b"
  by (metis floor_divide_of_int_eq of_int_numeral)

lemma ceiling_rat_numeral:
  "\<lceil>(numeral a :: rat) / numeral b\<rceil> = - (- numeral a div numeral b)"
  by (metis ceiling_def floor_divide_of_int_eq minus_divide_left of_int_minus of_int_numeral)

lemma digit_char_simps:
  "digit_char 0 = CHR ''0''" "digit_char 1 = CHR ''1''" "digit_char 2 = CHR ''2''"
  "digit_char 3 = CHR ''3''" "digit_char 4 = CHR ''4''" "digit_char 5 = CHR ''5''"
  "digit_char 6 = CHR ''6''" "digit_char 7 = CHR ''7''" "digit_char 8 = CHR ''8''"
  "digit_char 9 = CHR ''9''"
  by code_simp+

lemma digit_char_Suc_0: "digit_char (Suc 0) = CHR ''1''"
  using digit_char_simps(2) by simp

lemma digits_0: "digits 0 = ''0''"
  by (simp add: digits.simps digit_char_simps)

lemma digits_1: "digits 1 = ''1''" "digits (Suc 0) = ''1''"
  by (simp_all add: digits.simps digit_char_Suc_0)

lemma digits_numeral:
  "digits (numeral k) =
     (if numeral k < (10::nat) then [digit_char (numeral k)]
      else digits (numeral k div 10) @ [digit_char (numeral k mod 10)])"
  by (rule digits.simps)

lemmas number_eval =
  lit_def round_double_def ilog2_def pow2_def round_half_even_def Let_def signed_def fsub_def
  bitlen_0 bitlen_1 bitlen_Suc_0 bitlen_numeral floor_rat_numeral ceiling_rat_numeral

lemmas text_eval =
  toFixed_def Let_def floor_rat_numeral digit_char_simps digit_char_Suc_0 digits_0 digits_1
  digits_numeral

lemma lit_0: "lit 0 = Finite False 0"
  by (simp add: lit_def round_double_def)

lemma lit_1: "lit 1 = Finite False 1"
  by (simp add: number_eval)

lemma lit_100: "lit 100 = Finite False 100"
  by (simp add: number_eval)

section \<open>Signs\<close>

lemma round_half_even_nonneg:
  assumes "0 \<le> r"
  shows "0 \<le> round_half_even r"
proof -
  have "0 \<le> \<lfloor>r\<rfloor>" using assms by simp
  then show ?thesis by (simp add: round_half_even_def Let_def)
qed

lemma pow2_pos: "0 < pow2 k"
  by (simp add: pow2_def)

lemma round_double_nonneg:
  assumes "0 \<le> q"
  shows "nonnegative (round_double False q)"
proof (cases "q = 0")
  case True
  then show ?thesis by (simp add: round_double_def nonnegative_def)
next
  case False
  define e where "e = max (ilog2 q - 52) (- 1074)"
  have "0 \<le> q / pow2 e" using assms pow2_pos [of e] by simp
  then have "0 \<le> round_half_even (q / pow2 e)" by (rule round_half_even_nonneg)
  then have "0 \<le> rat_of_int (round_half_even (q / pow2 e)) * pow2 e"
    using pow2_pos [of e] by simp
  then show ?thesis using False
    by (simp add: round_double_def Let_def nonnegative_def e_def)
qed

lemma nonnegative_cases:
  assumes "nonnegative x"
  obtains "x = Infinity False" | m where "x = Finite False m" "0 \<le> m"
  using assms by (cases x) (auto simp add: nonnegative_def)

lemma fdiv_1_positive:
  assumes "positive x"
  shows "nonnegative (fdiv (lit 1) x)"
proof (cases x)
  case NaN
  with assms show ?thesis by (simp add: positive_def)
next
  case (Infinity s)
  with assms show ?thesis by (simp add: positive_def lit_1 nonnegative_def)
next
  case (Finite s a)
  with assms have "\<not> s" "0 < a" by (simp_all add: positive_def)
  then show ?thesis using Finite round_double_nonneg [of "1 / a"] by (simp add: lit_1)
qed

lemma fadd_nonnegative:
  assumes "nonnegative x" "nonnegative y"
  shows "nonnegative (fadd x y)"
proof -
  consider "x = Infinity False" | "y = Infinity False"
    | a b where "x = Finite False a" "0 \<le> a" "y = Finite False b" "0 \<le> b"
    using assms by (metis nonnegative_cases)
  then show ?thesis
  proof cases
    case 1
    with assms(2) show ?thesis by (cases y) (simp_all add: nonnegative_def)
  next
    case 2
    with assms(1) show ?thesis by (cases x) (simp_all add: nonnegative_def)
  next
    case 3
    then show ?thesis
      using round_double_nonneg [of "a + b"]
      by (simp add: signed_def Let_def nonnegative_def)
  qed
qed

text \<open>The profit the source computes from a sum below one is zero or above it.\<close>

lemma profit_nonnegative:
  assumes "nonnegative t" "flt t (lit 1)"
  shows "nonnegative (fmul (fdiv (fsub (lit 1) t) t) (lit 100))"
proof -
  from assms obtain b where t: "t = Finite False b" and b: "0 \<le> b" "b < 1"
    by (cases t) (auto simp add: nonnegative_def lit_1 signed_def)
  have u: "fsub (lit 1) t = round_double False (1 - b)"
    using b by (simp add: t fsub_def lit_1 signed_def Let_def)
  have nu: "nonnegative (round_double False (1 - b))"
    using b by (intro round_double_nonneg) simp
  have w: "nonnegative (fdiv (fsub (lit 1) t) t)"
  proof (cases "b = 0")
    case True
    then have "fsub (lit 1) t = Finite False 1"
      using u lit_1 by (simp add: lit_def)
    then show ?thesis using True by (simp add: t nonnegative_def)
  next
    case False
    from nu show ?thesis
    proof (cases rule: nonnegative_cases)
      case 1
      then show ?thesis using u by (simp add: t nonnegative_def)
    next
      case (2 c)
      then show ?thesis
        using u False b round_double_nonneg [of "c / b"] by (simp add: t)
    qed
  qed
  from w show ?thesis
  proof (cases rule: nonnegative_cases)
    case 1
    then show ?thesis by (simp add: lit_100 nonnegative_def)
  next
    case (2 d)
    then show ?thesis using round_double_nonneg [of "d * 100"] by (simp add: lit_100)
  qed
qed

lemma fle_not_flt: "fle x y \<Longrightarrow> \<not> flt y x"
  by (cases x; cases y) auto

section \<open>Comparisons\<close>

declare of_int_floor_cancel [simp del]

lemma lit_8: "lit 8 = Finite False 8"
  by (simp add: number_eval)

lemma lit_12: "lit 12 = Finite False 12"
  by (simp add: number_eval)

lemma round_double_not_NaN: "round_double s q \<noteq> NaN"
  by (simp add: round_double_def Let_def)

lemma fadd_Finite_not_NaN: "fadd (Finite s a) (Finite t b) \<noteq> NaN"
  by (simp add: Let_def round_double_not_NaN)

lemma not_flt_fle:
  assumes "x \<noteq> NaN" "y \<noteq> NaN" "\<not> flt x y"
  shows "fle y x"
  using assms by (cases x; cases y) auto

lemma feq_fle: "feq x y \<Longrightarrow> fle x y \<and> fle y x"
  by (cases x; cases y) auto

lemma between_Finite:
  assumes "fle (Finite s a) x" "fle x (Finite t b)"
  obtains u c where "x = Finite u c"
  using assms by (cases x) auto

section \<open>Rounding never loses a number above zero\<close>


lemma bitlen_lower: "0 < n \<Longrightarrow> 2 ^ (bitlen n - 1) \<le> n"
proof (induction n rule: bitlen.induct)
  case (1 n)
  show ?case
  proof (cases "n div 2 = 0")
    case True
    with "1.prems" have "n = 1" by presburger
    then show ?thesis by (simp add: bitlen_Suc_0)
  next
    case False
    then have "2 ^ (bitlen (n div 2) - 1) \<le> n div 2"
      using "1.IH" "1.prems" by simp
    moreover have "0 < bitlen (n div 2)"
      using False by (subst bitlen.simps) simp
    moreover have "bitlen n = 1 + bitlen (n div 2)"
      using "1.prems" by (subst bitlen.simps) simp
    ultimately have "2 ^ (bitlen n - 1) \<le> 2 * (n div 2)"
      by (cases "bitlen (n div 2)") simp_all
    then show ?thesis by presburger
  qed
qed

lemma bitlen_upper: "n < 2 ^ bitlen n"
proof (induction n rule: bitlen.induct)
  case (1 n)
  show ?case
  proof (cases "n = 0")
    case True
    then show ?thesis by (simp add: bitlen_0)
  next
    case False
    then have "n div 2 < 2 ^ bitlen (n div 2)" using "1.IH" by simp
    moreover have "bitlen n = 1 + bitlen (n div 2)"
      using False by (subst bitlen.simps) simp
    ultimately show ?thesis by simp
  qed
qed

lemma pow2_powi: "pow2 k = 2 powi k"
  by (simp add: pow2_def power_int_def power_one_over inverse_eq_divide)

lemma pow2_mono: "a \<le> b \<Longrightarrow> pow2 a \<le> pow2 b"
  by (simp add: pow2_powi power_int_increasing)

lemma pow2_nat: "pow2 (int n) = 2 ^ n"
  by (simp add: pow2_def)

lemma ilog2_lower:
  assumes "0 < q"
  shows "pow2 (ilog2 q) \<le> q"
proof (cases "1 \<le> q")
  case True
  define n where "n = nat \<lfloor>q\<rfloor>"
  have n: "0 < n" using True by (simp add: n_def)
  then have b: "0 < bitlen n" by (subst bitlen.simps) simp
  have "pow2 (ilog2 q) = pow2 (int (bitlen n - 1))"
    using True b by (simp add: ilog2_def n_def of_nat_diff)
  also have "\<dots> = of_nat (2 ^ (bitlen n - 1))" by (simp add: pow2_nat)
  also have "\<dots> \<le> of_nat n" using bitlen_lower [OF n] by (simp only: of_nat_le_iff)
  also have "\<dots> = of_int \<lfloor>q\<rfloor>" using True by (simp add: n_def)
  also have "\<dots> \<le> q" by simp
  finally show ?thesis .
next
  case False
  define N where "N = nat (\<lceil>1 / q\<rceil> - 1)"
  have q1: "1 < 1 / q" using False assms by simp
  then have c: "2 \<le> \<lceil>1 / q\<rceil>" by linarith
  have "N < 2 ^ bitlen N" by (rule bitlen_upper)
  then have "int N + 1 \<le> 2 ^ bitlen N"
    by (metis Suc_leI of_nat_Suc of_nat_le_iff of_nat_numeral of_nat_power add.commute)
  moreover have "int N + 1 = \<lceil>1 / q\<rceil>"
  proof -
    have "0 \<le> \<lceil>1 / q\<rceil> - 1" using c by linarith
    then have "int N = \<lceil>1 / q\<rceil> - 1" unfolding N_def by (rule nat_0_le)
    then show ?thesis by linarith
  qed
  ultimately have "\<lceil>1 / q\<rceil> \<le> 2 ^ bitlen N" by simp
  then have "1 / q \<le> 2 ^ bitlen N"
    by (metis ceiling_le_iff of_int_numeral of_int_power)
  then have "1 / 2 ^ bitlen N \<le> q"
    using assms by (simp add: field_simps)
  moreover have "pow2 (ilog2 q) = 1 / 2 ^ bitlen N"
    using False by (simp add: ilog2_def N_def pow2_def del: One_nat_def)
  ultimately show ?thesis by simp
qed


text \<open>The least double above zero, and the doubles that are multiples of it.\<close>

lemma round_half_even_ge_1:
  assumes "1 \<le> r"
  shows "1 \<le> round_half_even r"
proof -
  have "1 \<le> \<lfloor>r\<rfloor>" using assms by simp
  then show ?thesis by (simp add: round_half_even_def Let_def)
qed

lemma round_double_least:
  assumes "pow2 (- 1074) \<le> q"
  shows "round_double False q = Infinity False \<or>
         (\<exists>v. round_double False q = Finite False v \<and> pow2 (- 1074) \<le> v)"
proof -
  have q: "0 < q" using assms pow2_pos [of "- 1074"] by linarith
  define e where "e = max (ilog2 q - 52) (- 1074)"
  have "pow2 e \<le> q"
  proof (cases "ilog2 q - 52 \<le> - 1074")
    case True
    then have "e = - 1074" by (simp add: e_def)
    with assms show ?thesis by simp
  next
    case False
    then have "e \<le> ilog2 q" by (simp add: e_def)
    then have "pow2 e \<le> pow2 (ilog2 q)" by (rule pow2_mono)
    also have "\<dots> \<le> q" by (rule ilog2_lower [OF q])
    finally show ?thesis .
  qed
  then have "1 \<le> q / pow2 e" using pow2_pos [of e] by (simp add: field_simps)
  then have "1 \<le> round_half_even (q / pow2 e)" by (rule round_half_even_ge_1)
  then have "1 \<le> rat_of_int (round_half_even (q / pow2 e))" by simp
  then have "1 * pow2 e \<le> rat_of_int (round_half_even (q / pow2 e)) * pow2 e"
    using pow2_pos [of e] by (intro mult_right_mono) simp_all
  moreover have "pow2 (- 1074) \<le> pow2 e" by (rule pow2_mono) (simp add: e_def)
  ultimately have "pow2 (- 1074) \<le> rat_of_int (round_half_even (q / pow2 e)) * pow2 e"
    by simp
  then show ?thesis using q by (simp add: round_double_def Let_def e_def)
qed


lemma pow2_grid:
  assumes "- 1074 \<le> e"
  shows "pow2 e = of_int (2 ^ nat (e + 1074)) * pow2 (- 1074)"
proof -
  have "pow2 e = 2 powi (e + 1074 + (- 1074))" by (simp add: pow2_powi)
  also have "\<dots> = 2 powi (e + 1074) * 2 powi (- 1074)"
    by (rule power_int_add) simp
  also have "2 powi (e + 1074) = (2::rat) ^ nat (e + 1074)"
    using assms by (simp add: power_int_nonneg_exp)
  finally show ?thesis by (simp add: pow2_powi)
qed

lemma round_double_grid:
  "round_double False q = Infinity False \<or>
   (\<exists>k::int. round_double False q = Finite False (of_int k * pow2 (- 1074)))"
proof (cases "q = 0")
  case True
  have "Finite False 0 = Finite False (of_int 0 * pow2 (- 1074))" by simp
  then show ?thesis using True unfolding round_double_def by (metis (full_types))
next
  case False
  define e where "e = max (ilog2 q - 52) (- 1074)"
  define n where "n = round_half_even (q / pow2 e)"
  have "- 1074 \<le> e" by (simp add: e_def)
  then have g: "of_int n * pow2 e = of_int (n * 2 ^ nat (e + 1074)) * pow2 (- 1074)"
    by (subst pow2_grid) simp_all
  have "round_double False q =
          (if pow2 1024 \<le> of_int n * pow2 e then Infinity False
           else Finite False (of_int n * pow2 e))"
    using False by (simp add: round_double_def Let_def e_def n_def)
  then show ?thesis unfolding g by (metis (full_types))
qed


lemma above_least_positive: "above_least x \<Longrightarrow> positive x"
  using pow2_pos [of "- 1074"]
  by (cases x) (auto simp add: above_least_def positive_def)

lemma above_least_cases:
  assumes "above_least x"
  obtains "x = Infinity False" | m where "x = Finite False m" "pow2 (- 1074) \<le> m"
  using assms by (cases x) (auto simp add: above_least_def)

lemma round_double_above_least:
  assumes "pow2 (- 1074) \<le> q"
  shows "above_least (round_double False q)"
  using round_double_least [OF assms] by (auto simp add: above_least_def)

lemma one_on_grid: "1 = rat_of_int (2 ^ 1074) * pow2 (- 1074)"
  using pow2_grid [of 0] by (simp add: pow2_def)

lemma below_one_on_grid:
  assumes "b = rat_of_int k * pow2 (- 1074)" "b < 1"
  shows "pow2 (- 1074) \<le> 1 - b"
proof -
  have "1 - b = rat_of_int (2 ^ 1074 - k) * pow2 (- 1074)"
    by (subst one_on_grid) (simp add: assms(1) algebra_simps)
  moreover have "0 < 1 - b" using assms(2) by simp
  ultimately have "0 < rat_of_int (2 ^ 1074 - k) * pow2 (- 1074)" by simp
  then have "0 < rat_of_int (2 ^ 1074 - k)"
    using pow2_pos [of "- 1074"] by (simp add: zero_less_mult_iff)
  then have "1 \<le> rat_of_int (2 ^ 1074 - k)"
    by (metis of_int_0_less_iff of_int_1_le_iff zless_imp_add1_zle add_0)
  then have "1 * pow2 (- 1074) \<le> rat_of_int (2 ^ 1074 - k) * pow2 (- 1074)"
    using pow2_pos [of "- 1074"] by (intro mult_right_mono) simp_all
  with \<open>1 - b = rat_of_int (2 ^ 1074 - k) * pow2 (- 1074)\<close> show ?thesis by simp
qed

lemma fadd_nonnegative_grid:
  assumes "nonnegative x" "nonnegative y" "fadd x y = Finite False b"
  shows "\<exists>k::int. b = rat_of_int k * pow2 (- 1074)"
proof -
  from assms(1,3) obtain a where x: "x = Finite False a" "0 \<le> a"
    by (cases x; cases y) (auto simp add: nonnegative_def split: if_splits)
  from assms(2,3) obtain c where y: "y = Finite False c" "0 \<le> c"
    by (cases x; cases y) (auto simp add: nonnegative_def split: if_splits)
  show ?thesis
  proof (cases "a + c = 0")
    case True
    then have "b = rat_of_int 0 * pow2 (- 1074)"
      using assms(3) by (simp add: x y signed_def)
    then show ?thesis by blast
  next
    case False
    then have "round_double False (a + c) = Finite False b"
      using assms(3) x(2) y(2) by (simp add: x(1) y(1) signed_def Let_def)
    with round_double_grid [of "a + c"] show ?thesis by auto
  qed
qed

lemma profit_positive:
  assumes "nonnegative x" "nonnegative y" "flt (fadd x y) (lit 1)"
  shows "positive (fmul (fdiv (fsub (lit 1) (fadd x y)) (fadd x y)) (lit 100))"
proof -
  have nt: "nonnegative (fadd x y)" by (rule fadd_nonnegative [OF assms(1,2)])
  with assms(3) obtain b where t: "fadd x y = Finite False b" and b: "0 \<le> b" "b < 1"
    by (cases "fadd x y") (auto simp add: nonnegative_def lit_1 signed_def)
  obtain k :: int where k: "b = rat_of_int k * pow2 (- 1074)"
    using fadd_nonnegative_grid [OF assms(1,2) t] by blast
  have g: "pow2 (- 1074) \<le> 1 - b" by (rule below_one_on_grid [OF k b(2)])
  define u where "u = fsub (lit 1) (Finite False b)"
  define w where "w = fdiv u (Finite False b)"
  have "u = round_double False (1 - b)"
    using b by (simp add: u_def fsub_def lit_1 signed_def Let_def)
  then have au: "above_least u"
    using round_double_above_least [OF g] by simp
  have aw: "above_least w"
    using au
  proof (cases rule: above_least_cases)
    case 1
    then show ?thesis by (simp add: w_def above_least_def)
  next
    case (2 c)
    have cpos: "0 < c" using 2(2) pow2_pos [of "- 1074"] by linarith
    show ?thesis
    proof (cases "b = 0")
      case True
      with cpos show ?thesis unfolding w_def 2(1) by (simp add: above_least_def)
    next
      case False
      with b have "0 < b" by simp
      then have "c \<le> c / b" using b(2) cpos by (simp add: field_simps)
      with 2(2) have "pow2 (- 1074) \<le> c / b" by linarith
      then have "above_least (round_double False (c / b))"
        by (rule round_double_above_least)
      with False show ?thesis unfolding w_def 2(1) by simp
    qed
  qed
  have "above_least (fmul w (lit 100))"
    using aw
  proof (cases rule: above_least_cases)
    case 1
    then show ?thesis by (simp add: lit_100 above_least_def)
  next
    case (2 d)
    have "0 < d" using 2(2) pow2_pos [of "- 1074"] by linarith
    then have "d \<le> d * 100" by simp
    with 2(2) have "pow2 (- 1074) \<le> d * 100" by linarith
    then have "above_least (round_double False (d * 100))"
      by (rule round_double_above_least)
    then show ?thesis unfolding 2(1) by (simp add: lit_100)
  qed
  then show ?thesis unfolding t w_def u_def by (rule above_least_positive)
qed

lemma toFixed_2_small:
  assumes "m < 1 / 200"
  shows "toFixed (Finite False m) 2 = ''0.00''"
proof -
  have "m * 100 + 1 / 2 < 1" using assms by simp
  then have "\<lfloor>m * 100 + 1 / 2\<rfloor> \<le> 0" by (simp add: floor_le_iff)
  then have n: "nat \<lfloor>m * 100 + 1 / 2\<rfloor> = 0" by simp
  have "\<not> 10 ^ 21 \<le> m" using assms by simp
  then show ?thesis
    by (simp add: toFixed_def Let_def n digits_0 del: of_nat_numeral)
qed

section \<open>The text of a number above zero\<close>


lemma digit_char_digit:
  assumes "d < 10"
  shows "digit_char d \<in> set ''0123456789''"
proof -
  from assms have "d \<in> {0, 1, 2, 3, 4, 5, 6, 7, 8, 9}" by (simp only: insert_iff empty_iff) arith
  then show ?thesis by (auto simp add: digit_char_simps digit_char_Suc_0)
qed

lemma digit_char_nonzero:
  assumes "0 < d" "d < 10"
  shows "digit_char d \<in> set ''123456789''"
proof -
  from assms have "d \<in> {1, 2, 3, 4, 5, 6, 7, 8, 9}" by (simp only: insert_iff empty_iff) arith
  then show ?thesis by (auto simp add: digit_char_simps digit_char_Suc_0)
qed

lemma digits_chars: "set (digits n) \<subseteq> set ''0123456789''"
proof (induction n rule: digits.induct)
  case (1 n)
  show ?case
  proof (cases "n < 10")
    case True
    then show ?thesis using digit_char_digit [OF True] by (subst digits.simps) simp
  next
    case False
    have "digit_char (n mod 10) \<in> set ''0123456789''"
      by (rule digit_char_digit) simp
    with False "1.IH" show ?thesis by (subst digits.simps) simp
  qed
qed

lemma digits_nonzero: "0 < n \<Longrightarrow> \<exists>c\<in>set (digits n). c \<in> set ''123456789''"
proof (induction n rule: digits.induct)
  case (1 n)
  show ?case
  proof (cases "n < 10")
    case True
    then show ?thesis using digit_char_nonzero [OF "1.prems" True] by (subst digits.simps) simp
  next
    case False
    then have "0 < n div 10" by simp
    with False "1.IH" obtain c where "c \<in> set (digits (n div 10))" "c \<in> set ''123456789''"
      by blast
    with False show ?thesis by (subst digits.simps) auto
  qed
qed

lemma plain_positive_percentage:
  assumes "plain str"
  shows "positive_percentage (JSString str)"
proof -
  from assms obtain a l where s: "str = a # l"
    by (cases str) (simp_all add: plain_def)
  with assms have "a \<noteq> CHR ''-''" by (auto simp add: plain_def)
  then have "take 1 str \<noteq> ''-''" by (simp add: s)
  moreover from assms have "list_ex (\<lambda>c. c \<in> set ''123456789'') str"
    unfolding plain_def list_ex_iff by blast
  ultimately show ?thesis unfolding positive_percentage_def js_value.case by blast
qed

lemma digits_no_minus: "CHR ''-'' \<notin> set (digits n)"
proof
  assume "CHR ''-'' \<in> set (digits n)"
  then have "CHR ''-'' \<in> set ''0123456789''" using digits_chars [of n] by (rule rev_subsetD)
  then show False by simp
qed

lemma plain_digits: "0 < n \<Longrightarrow> plain (digits n)"
  using digits_no_minus [of n] digits_nonzero [of n]
  by (cases "digits n") (simp_all add: plain_def)

lemma plain_pointed:
  assumes "plain ds"
  shows "plain (take k ds @ ''.'' @ drop k ds)"
proof -
  have "set (take k ds) \<union> set (drop k ds) = set ds"
    by (metis append_take_drop_id set_append)
  then have "set (take k ds @ ''.'' @ drop k ds) = insert CHR ''.'' (set ds)"
    by auto
  with assms show ?thesis by (simp add: plain_def)
qed

lemma plain_padded:
  assumes "plain ds"
  shows "plain (replicate k CHR ''0'' @ ds)"
  using assms by (auto simp add: plain_def)

lemma plain_exponent:
  assumes "plain ds"
  shows "plain (ds @ ''e+'' @ digits n)"
  using assms digits_no_minus [of n] by (auto simp add: plain_def)

lemma in_concat_map: "y \<in> set (concat (map f xs)) \<Longrightarrow> \<exists>x\<in>set xs. y \<in> set (f x)"
  by auto

lemma nearest_member: "nearest x k best cs \<in> set (best # cs)"
  by (induction cs arbitrary: best) auto

lemma candidates_positive:
  assumes "(s, n) \<in> set (candidates x k)"
  shows "0 < s"
proof -
  let ?ok = "\<lambda>n s. k \<le> n \<and> 10 ^ (k - 1) \<le> s \<and> s < 10 ^ k \<and>
         round_double False (of_int (int (s * 10 ^ (n - k)))) = Finite False (of_int (int x))"
  from assms have "\<exists>n'\<in>set [length (digits x), length (digits x) + 1].
      (s, n) \<in> set (concat (map (\<lambda>s. if ?ok n' s then [(s, n')] else [])
                       [x div 10 ^ (n' - k), x div 10 ^ (n' - k) + 1]))"
    unfolding candidates_def by (rule in_concat_map)
  then obtain n' where
    "(s, n) \<in> set (concat (map (\<lambda>s. if ?ok n' s then [(s, n')] else [])
                      [x div 10 ^ (n' - k), x div 10 ^ (n' - k) + 1]))"
    by blast
  then have "\<exists>s'\<in>set [x div 10 ^ (n' - k), x div 10 ^ (n' - k) + 1].
      (s, n) \<in> set (if ?ok n' s' then [(s', n')] else [])"
    by (rule in_concat_map)
  then obtain s' where "(s, n) \<in> set (if ?ok n' s' then [(s', n')] else [])"
    by blast
  then have "10 ^ (k - 1) \<le> s"
    by (cases "?ok n' s'") simp_all
  moreover have "(0::nat) < 10 ^ (k - 1)" by simp
  ultimately show ?thesis by linarith
qed

lemma shortest_positive:
  assumes "shortest x ks = Some (s, n, k)"
  shows "0 < s"
  using assms
proof (induction ks)
  case Nil
  then show ?case by simp
next
  case (Cons j ks)
  show ?case
  proof (cases "candidates x j")
    case Nil
    with Cons show ?thesis by simp
  next
    case (Cons c cs)
    with Cons.prems have e: "nearest x j c cs = (s, n)" and "k = j"
      by (auto split: prod.splits)
    have "nearest x j c cs \<in> set (candidates x j)"
      unfolding Cons by (rule nearest_member)
    then show ?thesis unfolding e by (rule candidates_positive)
  qed
qed

lemma plain_Number_toString_large:
  assumes "0 < x"
  shows "plain (Number_toString_large x)"
proof (cases "shortest x [1..<18]")
  case None
  then show ?thesis using plain_digits [OF assms] by (simp add: Number_toString_large_def)
next
  case (Some r)
  obtain s n k where r: "r = (s, n, k)" by (cases r)
  have "0 < s" using Some unfolding r by (rule shortest_positive)
  then have d: "plain (digits s)" by (rule plain_digits)
  have "plain (if k = 1 then digits s else take 1 (digits s) @ ''.'' @ drop 1 (digits s))"
    using d plain_pointed [OF d, of 1] by simp
  then have "plain ((if k = 1 then digits s else take 1 (digits s) @ ''.'' @ drop 1 (digits s))
                    @ ''e+'' @ digits (n - 1))"
    by (rule plain_exponent)
  then show ?thesis unfolding Number_toString_large_def Some r option.case prod.case .
qed

lemma toFixed_2_plain:
  assumes "1 / 200 \<le> m"
  shows "plain (toFixed (Finite False m) 2)"
proof (cases "10 ^ 21 \<le> m")
  case True
  then have "(10::int) ^ 21 \<le> \<lfloor>m\<rfloor>" by (simp add: le_floor_iff)
  then have "0 < nat \<lfloor>m\<rfloor>" by simp
  then have "plain (Number_toString_large (nat \<lfloor>m\<rfloor>))"
    by (rule plain_Number_toString_large)
  with True show ?thesis by (simp add: toFixed_def)
next
  case False
  define n where "n = nat \<lfloor>m * 100 + 1 / 2\<rfloor>"
  define ds where "ds = (if length (digits n) \<le> 2
                         then replicate (2 + 1 - length (digits n)) CHR ''0'' @ digits n
                         else digits n)"
  have "1 \<le> m * 100 + 1 / 2" using assms by simp
  then have "1 \<le> \<lfloor>m * 100 + 1 / 2\<rfloor>" by (simp add: le_floor_iff)
  then have "0 < n" by (simp add: n_def)
  then have "plain (digits n)" by (rule plain_digits)
  then have "plain ds" using plain_padded [of "digits n"] by (simp add: ds_def)
  then have "plain (take (length ds - 2) ds @ ''.'' @ drop (length ds - 2) ds)"
    by (rule plain_pointed)
  moreover have "toFixed (Finite False m) 2 =
                   take (length ds - 2) ds @ ''.'' @ drop (length ds - 2) ds"
    using False by (simp add: toFixed_def Let_def n_def ds_def)
  ultimately show ?thesis by simp
qed

lemma toFixed_2_positive:
  assumes "positive p" "\<forall>m. p = Finite False m \<longrightarrow> 1 / 200 \<le> m"
  shows "positive_percentage (JSString (toFixed p 2))"
proof (cases p)
  case NaN
  with assms(1) show ?thesis by (simp add: positive_def)
next
  case (Infinity s)
  with assms(1) show ?thesis by (simp add: positive_def toFixed_def positive_percentage_def)
next
  case (Finite s m)
  with assms have "\<not> s" "1 / 200 \<le> m" by (auto simp add: positive_def)
  then show ?thesis using toFixed_2_plain [of m] plain_positive_percentage by (simp add: Finite)
qed


section \<open>What each method leaves alone\<close>


lemma updateSlideCounter_fields [simp]:
  "currentSlide (updateSlideCounter s) = currentSlide s"
  "totalSlides (updateSlideCounter s) = totalSlides s"
  "isTransitioning (updateSlideCounter s) = isTransitioning s"
  "slides (updateSlideCounter s) = slides s"
  "bookmakerChart (updateSlideCounter s) = bookmakerChart s"
  "liveCharts (updateSlideCounter s) = liveCharts s"
  "timers (updateSlideCounter s) = timers s"
  by (simp_all add: updateSlideCounter_def Let_def split: option.splits)

lemma updateNavigationButtons_fields [simp]:
  "currentSlide (updateNavigationButtons s) = currentSlide s"
  "totalSlides (updateNavigationButtons s) = totalSlides s"
  "isTransitioning (updateNavigationButtons s) = isTransitioning s"
  "slides (updateNavigationButtons s) = slides s"
  "bookmakerChart (updateNavigationButtons s) = bookmakerChart s"
  "liveCharts (updateNavigationButtons s) = liveCharts s"
  "timers (updateNavigationButtons s) = timers s"
  by (simp_all add: updateNavigationButtons_def Let_def split: option.splits)

lemma showCurrentSlide_fields [simp]:
  "currentSlide (showCurrentSlide s) = currentSlide s"
  "totalSlides (showCurrentSlide s) = totalSlides s"
  "isTransitioning (showCurrentSlide s) = isTransitioning s"
  "bookmakerChart (showCurrentSlide s) = bookmakerChart s"
  "liveCharts (showCurrentSlide s) = liveCharts s"
  "timers (showCurrentSlide s) = timers s"
  by (simp_all add: showCurrentSlide_def Let_def)

lemma setTimeout_fields [simp]:
  "currentSlide (setTimeout t ms s) = currentSlide s"
  "totalSlides (setTimeout t ms s) = totalSlides s"
  "isTransitioning (setTimeout t ms s) = isTransitioning s"
  "slides (setTimeout t ms s) = slides s"
  "bookmakerChart (setTimeout t ms s) = bookmakerChart s"
  "liveCharts (setTimeout t ms s) = liveCharts s"
  "timers (setTimeout t ms s) = timers s @ [(ms, t)]"
  by (simp_all add: setTimeout_def)

lemma console_log_fields [simp]:
  "currentSlide (console_log a s) = currentSlide s"
  "totalSlides (console_log a s) = totalSlides s"
  "isTransitioning (console_log a s) = isTransitioning s"
  "slides (console_log a s) = slides s"
  "bookmakerChart (console_log a s) = bookmakerChart s"
  "liveCharts (console_log a s) = liveCharts s"
  "timers (console_log a s) = timers s"
  by (simp_all add: console_log_def)

lemma console_error_fields [simp]:
  "currentSlide (console_error a s) = currentSlide s"
  "totalSlides (console_error a s) = totalSlides s"
  "isTransitioning (console_error a s) = isTransitioning s"
  "slides (console_error a s) = slides s"
  "bookmakerChart (console_error a s) = bookmakerChart s"
  "liveCharts (console_error a s) = liveCharts s"
  "timers (console_error a s) = timers s"
  by (simp_all add: console_error_def)

lemma showSlideCallback_fields [simp]:
  "currentSlide (showSlideCallback s) = currentSlide s"
  "totalSlides (showSlideCallback s) = totalSlides s"
  "isTransitioning (showSlideCallback s) = False"
  "slides (showSlideCallback s) = slides (showCurrentSlide s)"
  "bookmakerChart (showSlideCallback s) = bookmakerChart s"
  "liveCharts (showSlideCallback s) = liveCharts s"
  by (simp_all add: showSlideCallback_def Let_def)

lemma goToSlide_fields [simp]:
  "totalSlides (goToSlide n s) = totalSlides s"
  "bookmakerChart (goToSlide n s) = bookmakerChart s"
  "liveCharts (goToSlide n s) = liveCharts s"
  by (simp_all add: goToSlide_def Let_def)

lemma initializeBookmakerChart_returns:
  "\<exists>s'. initializeBookmakerChart env s = Inr s'"
  by (simp add: initializeBookmakerChart_def Let_def newChart_def
      split: option.splits ctor_outcome.splits js_error.splits)

lemma initializeBookmakerChart_nav:
  assumes "initializeBookmakerChart env s = Inr s'"
  shows "currentSlide s' = currentSlide s" "totalSlides s' = totalSlides s"
    "isTransitioning s' = isTransitioning s" "slides s' = slides s"
  using assms
  by (auto simp add: initializeBookmakerChart_def Let_def newChart_def destroy_def
      split: option.splits ctor_outcome.splits js_error.splits if_splits)

lemma goToSlide_accepted:
  assumes "\<not> isTransitioning s" "\<not> flt n (lit 1)" "\<not> flt (totalSlides s) n"
  shows "currentSlide (goToSlide n s) = n"
    and "isTransitioning (goToSlide n s)"
    and "timers (goToSlide n s) = timers s @ [(50, ShowSlide)]"
    and "slides (goToSlide n s) = classList_set (fsub (currentSlide s) (lit 1)) False (slides s)"
  using assms by (simp_all add: goToSlide_def Let_def)

lemma length_classList_set [simp]: "length (classList_set x v xs) = length xs"
  by (simp add: classList_set_def split: option.splits)

lemma length_slides_showCurrentSlide [simp]:
  "length (slides (showCurrentSlide s)) = length (slides s)"
  by (simp add: showCurrentSlide_def Let_def)

lemma length_slides_goToSlide [simp]: "length (slides (goToSlide n s)) = length (slides s)"
  by (simp add: goToSlide_def Let_def)

section \<open>The invariants hold along every run\<close>

subsection \<open>The range of the slide number\<close>

lemma nav_inv_goToSlide:
  assumes "nav_inv s" "n \<noteq> NaN"
  shows "nav_inv (goToSlide n s)"
proof (cases "flt n (lit 1) \<or> flt (totalSlides s) n \<or> isTransitioning s")
  case True
  with assms(1) show ?thesis by (simp add: goToSlide_def)
next
  case False
  have t: "totalSlides s = lit 12" using assms(1) by (simp add: nav_inv_def)
  have "fle (lit 1) n"
    using False assms(2) by (intro not_flt_fle) (simp_all add: lit_1)
  moreover have "fle n (lit 12)"
    using False assms(2) t by (intro not_flt_fle) (simp_all add: lit_12)
  ultimately show ?thesis
    using False t by (simp add: nav_inv_def goToSlide_def Let_def)
qed

lemma nav_inv_Finite:
  assumes "nav_inv s"
  obtains u c where "currentSlide s = Finite u c"
proof -
  from assms have "fle (Finite False 1) (currentSlide s)" "fle (currentSlide s) (Finite False 12)"
    by (simp_all add: nav_inv_def lit_1 lit_12)
  then show ?thesis using that by (rule between_Finite)
qed

lemma nav_inv_console_log: "nav_inv s \<Longrightarrow> nav_inv (console_log a s)"
  by (simp add: nav_inv_def)

lemma nav_inv_nextSlide:
  assumes "nav_inv s"
  shows "nav_inv (nextSlide s)"
proof -
  obtain u c where "currentSlide s = Finite u c"
    using assms by (rule nav_inv_Finite)
  then have "fadd (currentSlide s) (lit 1) \<noteq> NaN"
    by (simp only: lit_1 fadd_Finite_not_NaN not_False_eq_True)
  then show ?thesis
    using assms by (simp add: nextSlide_def nav_inv_goToSlide nav_inv_console_log)
qed

lemma nav_inv_previousSlide:
  assumes "nav_inv s"
  shows "nav_inv (previousSlide s)"
proof -
  obtain u c where "currentSlide s = Finite u c"
    using assms by (rule nav_inv_Finite)
  then have "fsub (currentSlide s) (lit 1) \<noteq> NaN"
    by (simp only: lit_1 fsub_def fneg.simps fadd_Finite_not_NaN not_False_eq_True)
  then show ?thesis
    using assms by (simp add: previousSlide_def nav_inv_goToSlide nav_inv_console_log)
qed

lemma nav_inv_returned:
  assumes "nav_inv s"
  shows "nav_inv (returned s (initializeBookmakerChart env s))"
proof -
  obtain s' where "initializeBookmakerChart env s = Inr s'"
    using initializeBookmakerChart_returns by blast
  with assms show ?thesis
    by (simp add: returned_def nav_inv_def initializeBookmakerChart_nav)
qed

lemma nav_inv_step:
  assumes "nav_inv s" "target e \<noteq> Some NaN"
  shows "nav_inv (step e s)"
proof (cases e)
  case CallNextSlide
  with assms show ?thesis by (simp add: nav_inv_nextSlide)
next
  case CallPreviousSlide
  with assms show ?thesis by (simp add: nav_inv_previousSlide)
next
  case (CallGoToSlide n)
  with assms show ?thesis by (simp add: nav_inv_goToSlide)
next
  case (CallSetSlide n)
  with assms show ?thesis by (simp add: setSlide_def nav_inv_goToSlide)
next
  case (CallInitChart env)
  with assms show ?thesis by (simp add: nav_inv_returned)
next
  case (Timeout k env)
  let ?s = "s\<lparr>timers := drop_nth k (timers s)\<rparr>"
  have inv': "nav_inv ?s" using assms(1) by (simp add: nav_inv_def)
  have "nav_inv (runCallback env t ?s)" for t
  proof (cases t)
    case ShowSlide
    then show ?thesis using inv' by (simp add: runCallback_def nav_inv_def)
  next
    case InitChart
    then show ?thesis using nav_inv_returned [OF inv'] by (simp add: runCallback_def)
  qed
  with assms(1) Timeout show ?thesis by simp
qed

lemma nav_inv_PresentationApp: "nav_inv (PresentationApp d)"
  by (simp add: PresentationApp_def init_def Let_def nav_inv_def lit_1 lit_12 signed_def)

lemma nav_inv_run:
  assumes "numeric_targets es" "nav_inv s"
  shows "nav_inv (run es s)"
  using assms
  by (induction es arbitrary: s) (simp_all add: numeric_targets_def nav_inv_step)

subsection \<open>Whole slide numbers\<close>








subsection \<open>The active slide\<close>



lemma length_one_hot [simp]: "length (one_hot n k) = n"
  by (simp add: one_hot_def)












subsection \<open>The chart\<close>

lemma chart_inv_initializeBookmakerChart:
  assumes "chart_inv s" "initializeBookmakerChart env s = Inr s'"
  shows "chart_inv s'"
  using assms
  by (auto simp add: chart_inv_def initializeBookmakerChart_def Let_def newChart_def
      destroy_def console_log_def console_error_def
      split: option.splits ctor_outcome.splits js_error.splits if_splits)

lemma chart_inv_cong:
  assumes "bookmakerChart s' = bookmakerChart s" "liveCharts s' = liveCharts s"
    "chartsCreated s' = chartsCreated s" "chart_inv s"
  shows "chart_inv s'"
  using assms by (simp add: chart_inv_def split: option.splits)

lemma chartsCreated_fields [simp]:
  "chartsCreated (updateSlideCounter s) = chartsCreated s"
  "chartsCreated (updateNavigationButtons s) = chartsCreated s"
  "chartsCreated (showCurrentSlide s) = chartsCreated s"
  "chartsCreated (setTimeout t ms s) = chartsCreated s"
  "chartsCreated (console_log a s) = chartsCreated s"
  "chartsCreated (showSlideCallback s) = chartsCreated s"
  "chartsCreated (goToSlide n s) = chartsCreated s"
  by (simp_all add: updateSlideCounter_def updateNavigationButtons_def showCurrentSlide_def
      setTimeout_def console_log_def showSlideCallback_def goToSlide_def Let_def
      split: option.splits)

lemma chart_inv_step:
  assumes "chart_inv s"
  shows "chart_inv (step e s)"
proof (cases e)
  case CallNextSlide
  show ?thesis unfolding CallNextSlide step.simps nextSlide_def
    by (rule chart_inv_cong [OF _ _ _ assms]) simp_all
next
  case CallPreviousSlide
  show ?thesis unfolding CallPreviousSlide step.simps previousSlide_def
    by (rule chart_inv_cong [OF _ _ _ assms]) simp_all
next
  case (CallGoToSlide n)
  show ?thesis unfolding CallGoToSlide step.simps
    by (rule chart_inv_cong [OF _ _ _ assms]) simp_all
next
  case (CallSetSlide n)
  show ?thesis unfolding CallSetSlide step.simps setSlide_def
    by (rule chart_inv_cong [OF _ _ _ assms]) simp_all
next
  case (CallInitChart env)
  obtain s' where s': "initializeBookmakerChart env s = Inr s'"
    using initializeBookmakerChart_returns by blast
  with assms CallInitChart show ?thesis
    by (simp add: returned_def chart_inv_initializeBookmakerChart)
next
  case (Timeout k env)
  let ?s = "s\<lparr>timers := drop_nth k (timers s)\<rparr>"
  have inv': "chart_inv ?s" by (rule chart_inv_cong [OF _ _ _ assms]) simp_all
  obtain s' where s': "initializeBookmakerChart env ?s = Inr s'"
    using initializeBookmakerChart_returns by blast
  have "chart_inv (runCallback env t ?s)" for t
  proof (cases t)
    case ShowSlide
    show ?thesis unfolding ShowSlide runCallback_def callback.case
      by (rule chart_inv_cong [OF _ _ _ inv']) simp_all
  next
    case InitChart
    then show ?thesis using inv' s'
      by (simp add: runCallback_def returned_def chart_inv_initializeBookmakerChart)
  qed
  with assms Timeout show ?thesis by simp
qed

lemma chart_inv_PresentationApp: "chart_inv (PresentationApp d)"
  by (simp add: PresentationApp_def init_def Let_def chart_inv_def)

lemma chart_inv_run: "chart_inv s \<Longrightarrow> chart_inv (run es s)"
  by (induction es arbitrary: s) (simp_all add: chart_inv_step)

lemma chart_inv_live: "chart_inv s \<Longrightarrow> length (liveCharts s) \<le> 1"
  by (simp add: chart_inv_def split: option.splits)

section \<open>Evaluating runs\<close>

lemma PresentationApp_fields:
  "currentSlide (PresentationApp d) = lit 1"
  "totalSlides (PresentationApp d) = lit 12"
  "isTransitioning (PresentationApp d) = False"
  "timers (PresentationApp d) = []"
  "bookmakerChart (PresentationApp d) = None"
  "liveCharts (PresentationApp d) = []"
  "chartsCreated (PresentationApp d) = 0"
  by (simp_all add: PresentationApp_def init_def Let_def lit_1 lit_8 signed_def)

lemma showSlideCallback_timers:
  "timers (showSlideCallback s) =
     timers s @ (if feq (currentSlide s) (lit 8) then [(200, InitChart)] else [])"
  by (simp add: showSlideCallback_def Let_def)

lemma Timeout_ShowSlide:
  assumes "timers s = (ms, ShowSlide) # ts"
  shows "step (Timeout 0 env) s = showSlideCallback (s\<lparr>timers := ts\<rparr>)"
  using assms by (simp add: runCallback_def drop_nth_def)

lemmas run_eval =
  run.simps step.simps setSlide_def goToSlide_accepted PresentationApp_fields
  showSlideCallback_timers runCallback_def drop_nth_def number_eval



section \<open>Properties of navigation\<close>

text \<open>
  C1, as stated, fails: \<open>setSlide(NaN)\<close> passes both comparisons of the guard of
  \<open>goToSlide\<close>, and \<open>currentSlide\<close> becomes NaN, which is not from 1 to
  \<open>totalSlides\<close>.
\<close>

theorem currentSlide_NaN_counterexample:
  "currentSlide (run [CallSetSlide NaN] (PresentationApp dom12)) = NaN \<and>
   \<not> (fle (lit 1) (currentSlide (run [CallSetSlide NaN] (PresentationApp dom12))) \<and>
      fle (currentSlide (run [CallSetSlide NaN] (PresentationApp dom12)))
        (totalSlides (run [CallSetSlide NaN] (PresentationApp dom12))))"
proof -
  have "currentSlide (run [CallSetSlide NaN] (PresentationApp dom12)) = NaN"
    by (simp add: setSlide_def goToSlide_def Let_def PresentationApp_fields lit_1 lit_12)
  then show ?thesis by simp
qed

text \<open>
  C1, amended. Whatever calls of \<open>nextSlide\<close>, \<open>previousSlide\<close>, \<open>goToSlide\<close> and
  \<open>setSlide\<close> follow the construction, interleaved in any way with the pending
  callbacks, \<open>currentSlide\<close> is at least 1 and at most \<open>totalSlides\<close>, which stays 12,
  provided no jump is given NaN: the targets may be any other numbers, whole or not.
\<close>

theorem currentSlide_in_range:
  assumes "numeric_targets es"
  shows "fle (lit 1) (currentSlide (run es (PresentationApp d))) \<and>
         fle (currentSlide (run es (PresentationApp d)))
           (totalSlides (run es (PresentationApp d))) \<and>
         totalSlides (run es (PresentationApp d)) = lit 12"
  using nav_inv_run [OF assms nav_inv_PresentationApp, of d] by (simp add: nav_inv_def)

theorem currentSlide_in_range_witness:
  "numeric_targets [CallSetSlide (lit (23 / 2)), Timeout 0 env_ok, CallNextSlide,
                    CallGoToSlide (lit 13), CallSetSlide (Infinity False)] \<and>
   currentSlide (run [CallSetSlide (lit (23 / 2)), Timeout 0 env_ok, CallNextSlide,
                      CallGoToSlide (lit 13), CallSetSlide (Infinity False)]
                   (PresentationApp dom12)) = lit (23 / 2) \<and>
   fle (lit 1)
     (currentSlide (run [CallSetSlide (lit (23 / 2)), Timeout 0 env_ok, CallNextSlide,
                         CallGoToSlide (lit 13), CallSetSlide (Infinity False)]
                      (PresentationApp dom12))) \<and>
   fle (currentSlide (run [CallSetSlide (lit (23 / 2)), Timeout 0 env_ok, CallNextSlide,
                           CallGoToSlide (lit 13), CallSetSlide (Infinity False)]
                        (PresentationApp dom12)))
     (totalSlides (run [CallSetSlide (lit (23 / 2)), Timeout 0 env_ok, CallNextSlide,
                        CallGoToSlide (lit 13), CallSetSlide (Infinity False)]
                     (PresentationApp dom12))) \<and>
   totalSlides (run [CallSetSlide (lit (23 / 2)), Timeout 0 env_ok, CallNextSlide,
                     CallGoToSlide (lit 13), CallSetSlide (Infinity False)]
                  (PresentationApp dom12)) = lit 12"
proof -
  let ?es = "[CallSetSlide (lit (23 / 2)), Timeout 0 env_ok, CallNextSlide,
              CallGoToSlide (lit 13), CallSetSlide (Infinity False)]"
  have a: "numeric_targets ?es"
    by (simp add: numeric_targets_def number_eval)
  have b: "currentSlide (run ?es (PresentationApp dom12)) = lit (23 / 2)"
    by (simp add: run_eval nextSlide_def goToSlide_def)
  from a b currentSlide_in_range [OF a, of dom12] show ?thesis by blast
qed

text \<open>
  C2. While \<open>isTransitioning\<close> is true, \<open>nextSlide\<close>, \<open>previousSlide\<close>,
  \<open>goToSlide\<close> and \<open>setSlide\<close> return the state they were given: no field changes,
  and the pending callbacks, which are part of the state, stay the same.
\<close>

theorem navigation_noop_while_transitioning:
  assumes "isTransitioning s"
  shows "nextSlide s = s \<and> previousSlide s = s \<and> goToSlide n s = s \<and> setSlide n s = s"
  using assms by (simp add: nextSlide_def previousSlide_def goToSlide_def setSlide_def)

theorem navigation_noop_while_transitioning_witness:
  "isTransitioning (setSlide (lit 5) (PresentationApp dom12)) \<and>
   nextSlide (setSlide (lit 5) (PresentationApp dom12)) =
     setSlide (lit 5) (PresentationApp dom12) \<and>
   previousSlide (setSlide (lit 5) (PresentationApp dom12)) =
     setSlide (lit 5) (PresentationApp dom12) \<and>
   goToSlide (lit 7) (setSlide (lit 5) (PresentationApp dom12)) =
     setSlide (lit 5) (PresentationApp dom12) \<and>
   setSlide (lit 7) (setSlide (lit 5) (PresentationApp dom12)) =
     setSlide (lit 5) (PresentationApp dom12)"
proof -
  have t: "isTransitioning (setSlide (lit 5) (PresentationApp dom12))"
    by (simp add: run_eval)
  from t navigation_noop_while_transitioning [OF t, of "lit 7"] show ?thesis by blast
qed

text \<open>
  C3. When no transition is under way, \<open>nextSlide\<close> with \<open>currentSlide\<close> equal to
  \<open>totalSlides\<close> and \<open>previousSlide\<close> with \<open>currentSlide\<close> equal to 1 return the
  state they were given; so they do whenever the guards \<open>currentSlide >= totalSlides\<close>
  and \<open>currentSlide <= 1\<close> hold.
\<close>

theorem navigation_noop_at_the_ends:
  assumes "\<not> isTransitioning s"
  shows "(feq (currentSlide s) (totalSlides s) \<longrightarrow> nextSlide s = s) \<and>
         (feq (currentSlide s) (lit 1) \<longrightarrow> previousSlide s = s) \<and>
         (fle (totalSlides s) (currentSlide s) \<longrightarrow> nextSlide s = s) \<and>
         (fle (currentSlide s) (lit 1) \<longrightarrow> previousSlide s = s)"
  using feq_fle [of "currentSlide s" "totalSlides s"] feq_fle [of "currentSlide s" "lit 1"]
  by (simp add: nextSlide_def previousSlide_def)

theorem navigation_noop_at_the_ends_witness:
  "\<not> isTransitioning (PresentationApp dom12) \<and>
   feq (currentSlide (PresentationApp dom12)) (lit 1) \<and>
   previousSlide (PresentationApp dom12) = PresentationApp dom12 \<and>
   \<not> isTransitioning (run [CallSetSlide (lit 12), Timeout 0 env_ok] (PresentationApp dom12)) \<and>
   feq (currentSlide (run [CallSetSlide (lit 12), Timeout 0 env_ok] (PresentationApp dom12)))
     (totalSlides (run [CallSetSlide (lit 12), Timeout 0 env_ok] (PresentationApp dom12))) \<and>
   nextSlide (run [CallSetSlide (lit 12), Timeout 0 env_ok] (PresentationApp dom12)) =
     run [CallSetSlide (lit 12), Timeout 0 env_ok] (PresentationApp dom12)"
proof -
  let ?s = "run [CallSetSlide (lit 12), Timeout 0 env_ok] (PresentationApp dom12)"
  have a: "\<not> isTransitioning (PresentationApp dom12)"
    by (simp add: PresentationApp_fields)
  have b: "feq (currentSlide (PresentationApp dom12)) (lit 1)"
    by (simp add: PresentationApp_fields lit_1 signed_def)
  have c: "\<not> isTransitioning ?s"
    by (simp add: run_eval)
  have d: "feq (currentSlide ?s) (totalSlides ?s)"
    by (simp add: run_eval)
  from a b c d navigation_noop_at_the_ends [OF a] navigation_noop_at_the_ends [OF c]
  show ?thesis by blast
qed

text \<open>
  C4. A \<open>goToSlide\<close> with a target from 1 to \<open>totalSlides\<close>, when no transition is
  under way, returns with \<open>currentSlide\<close> already at the target: \<open>getCurrentSlide\<close>
  gives the target while \<open>isTransitioning\<close> is true and the callback that shows the
  slide is still pending.
\<close>

theorem goToSlide_updates_currentSlide_at_once:
  assumes "\<not> isTransitioning s" "fle (lit 1) n" "fle n (totalSlides s)"
  shows "getCurrentSlide (goToSlide n s) = n \<and> isTransitioning (goToSlide n s) \<and>
         timers (goToSlide n s) = timers s @ [(50, ShowSlide)] \<and>
         slides (goToSlide n s) =
           classList_set (fsub (currentSlide s) (lit 1)) False (slides s)"
  using assms fle_not_flt [OF assms(2)] fle_not_flt [OF assms(3)]
  by (simp add: goToSlide_def getCurrentSlide_def Let_def)

theorem goToSlide_updates_currentSlide_at_once_witness:
  "\<not> isTransitioning (PresentationApp dom12) \<and> fle (lit 1) (lit 5) \<and>
   fle (lit 5) (totalSlides (PresentationApp dom12)) \<and>
   getCurrentSlide (goToSlide (lit 5) (PresentationApp dom12)) = lit 5 \<and>
   isTransitioning (goToSlide (lit 5) (PresentationApp dom12)) \<and>
   timers (goToSlide (lit 5) (PresentationApp dom12)) =
     timers (PresentationApp dom12) @ [(50, ShowSlide)] \<and>
   slides (goToSlide (lit 5) (PresentationApp dom12)) =
     classList_set (fsub (currentSlide (PresentationApp dom12)) (lit 1)) False
       (slides (PresentationApp dom12)) \<and>
   slides (goToSlide (lit 5) (PresentationApp dom12)) = replicate 12 False"
proof -
  have a: "\<not> isTransitioning (PresentationApp dom12)"
    by (simp add: PresentationApp_fields)
  have b: "fle (lit 1) (lit 5)"
    by (simp add: number_eval)
  have c: "fle (lit 5) (totalSlides (PresentationApp dom12))"
    by (simp add: PresentationApp_fields number_eval)
  have i: "slide_index (fsub (lit 1) (lit 1)) = Some 0"
    by (simp add: number_eval slide_index_def)
  have e: "slides (PresentationApp dom12) = (replicate 12 False)[0 := True]"
    by (simp add: PresentationApp_def init_def Let_def dom12_def showCurrentSlide_def
        classList_set_def i)
  have d: "slides (goToSlide (lit 5) (PresentationApp dom12)) = replicate 12 False"
    using goToSlide_updates_currentSlide_at_once [OF a b c]
    by (simp add: PresentationApp_fields e classList_set_def i list_eq_iff_nth_eq
        nth_list_update)
  from a b c d goToSlide_updates_currentSlide_at_once [OF a b c]
  show ?thesis by blast
qed

text \<open>
  C5. \<open>setSlide\<close> with the number of the slide already shown, when no transition is
  under way, is not a no-op: it sets \<open>isTransitioning\<close> and schedules the callback
  that shows the slide; on slide 8 that callback schedules the chart to be initialised
  again.
\<close>

theorem setSlide_to_current_runs_transition:
  assumes "\<not> isTransitioning s" "fle (lit 1) (currentSlide s)"
    "fle (currentSlide s) (totalSlides s)"
  shows "setSlide (currentSlide s) s \<noteq> s \<and>
         isTransitioning (setSlide (currentSlide s) s) \<and>
         currentSlide (setSlide (currentSlide s) s) = currentSlide s \<and>
         timers (setSlide (currentSlide s) s) = timers s @ [(50, ShowSlide)] \<and>
         (feq (currentSlide s) (lit 8) \<longrightarrow>
            timers (showSlideCallback (setSlide (currentSlide s) s)) =
              timers s @ [(50, ShowSlide), (200, InitChart)])"
proof -
  let ?s' = "setSlide (currentSlide s) s"
  have g: "\<not> flt (currentSlide s) (lit 1)" "\<not> flt (totalSlides s) (currentSlide s)"
    using fle_not_flt [OF assms(2)] fle_not_flt [OF assms(3)] by simp_all
  have t: "isTransitioning ?s'" and c: "currentSlide ?s' = currentSlide s"
    and tm: "timers ?s' = timers s @ [(50, ShowSlide)]"
    using assms(1) g by (simp_all add: setSlide_def goToSlide_accepted)
  have "?s' \<noteq> s" using t assms(1) by auto
  moreover have "timers (showSlideCallback ?s') = timers s @ [(50, ShowSlide), (200, InitChart)]"
    if "feq (currentSlide s) (lit 8)"
    using that c tm by (simp add: showSlideCallback_timers)
  ultimately show ?thesis using t c tm by simp
qed

theorem setSlide_to_current_runs_transition_witness:
  "\<not> isTransitioning (run [CallSetSlide (lit 8), Timeout 0 env_ok] (PresentationApp dom12)) \<and>
   currentSlide (run [CallSetSlide (lit 8), Timeout 0 env_ok] (PresentationApp dom12)) = lit 8 \<and>
   totalSlides (run [CallSetSlide (lit 8), Timeout 0 env_ok] (PresentationApp dom12)) = lit 12 \<and>
   feq (lit 8) (lit 8) \<and>
   setSlide (lit 8) (run [CallSetSlide (lit 8), Timeout 0 env_ok] (PresentationApp dom12)) \<noteq>
     run [CallSetSlide (lit 8), Timeout 0 env_ok] (PresentationApp dom12) \<and>
   isTransitioning
     (setSlide (lit 8)
        (run [CallSetSlide (lit 8), Timeout 0 env_ok] (PresentationApp dom12))) \<and>
   timers (showSlideCallback
     (setSlide (lit 8)
        (run [CallSetSlide (lit 8), Timeout 0 env_ok] (PresentationApp dom12)))) =
     timers (run [CallSetSlide (lit 8), Timeout 0 env_ok] (PresentationApp dom12)) @
       [(50, ShowSlide), (200, InitChart)]"
proof -
  let ?s = "run [CallSetSlide (lit 8), Timeout 0 env_ok] (PresentationApp dom12)"
  have a: "\<not> isTransitioning ?s"
    by (simp add: run_eval)
  have c: "currentSlide ?s = lit 8"
    by (simp add: run_eval)
  have t: "totalSlides ?s = lit 12"
    by (simp add: run_eval)
  have e: "feq (lit 8) (lit 8)"
    by (simp add: lit_8 signed_def)
  have b: "fle (lit 1) (currentSlide ?s)" and d: "fle (currentSlide ?s) (totalSlides ?s)"
    unfolding c t by (simp_all add: number_eval)
  from setSlide_to_current_runs_transition [OF a b d] e
  have "setSlide (lit 8) ?s \<noteq> ?s \<and> isTransitioning (setSlide (lit 8) ?s) \<and>
        timers (showSlideCallback (setSlide (lit 8) ?s)) =
          timers ?s @ [(50, ShowSlide), (200, InitChart)]"
    unfolding c by blast
  with a c t e show ?thesis by blast
qed





section \<open>Properties of the chart\<close>

text \<open>
  C7. In every state after construction, whatever calls of \<open>initializeBookmakerChart\<close>
  and other events came before, at most one chart is alive. When a chart exists and the
  canvas is found, a further call destroys that chart and clears the reference before it
  constructs: no chart is alive after the \<open>destroy\<close>, the old chart is not alive after
  the call, and at most one chart is.
\<close>

theorem at_most_one_live_chart:
  "length (liveCharts (run es (PresentationApp d))) \<le> 1 \<and>
   (\<forall>h env. bookmakerChart (run es (PresentationApp d)) = Some h \<and> canvasFound env \<longrightarrow>
      liveCharts (destroy h (run es (PresentationApp d))) = [] \<and>
      (\<exists>s'. initializeBookmakerChart env (run es (PresentationApp d)) = Inr s' \<and>
            h \<notin> set (liveCharts s') \<and> bookmakerChart s' \<noteq> Some h \<and>
            length (liveCharts s') \<le> 1))"
proof -
  let ?s = "run es (PresentationApp d)"
  have inv: "chart_inv ?s"
    by (rule chart_inv_run [OF chart_inv_PresentationApp])
  have "liveCharts (destroy h ?s) = [] \<and>
        (\<exists>s'. initializeBookmakerChart env ?s = Inr s' \<and> h \<notin> set (liveCharts s') \<and>
              bookmakerChart s' \<noteq> Some h \<and> length (liveCharts s') \<le> 1)"
    if h: "bookmakerChart ?s = Some h" and c: "canvasFound env" for h env
  proof -
    from inv h have live: "liveCharts ?s = [h]" and old: "h < chartsCreated ?s"
      by (simp_all add: chart_inv_def)
    obtain s' where s': "initializeBookmakerChart env ?s = Inr s'"
      using initializeBookmakerChart_returns by blast
    have "chart_inv s'"
      by (rule chart_inv_initializeBookmakerChart [OF inv s'])
    then have one: "length (liveCharts s') \<le> 1"
      by (rule chart_inv_live)
    have "h \<notin> set (liveCharts s') \<and> bookmakerChart s' \<noteq> Some h"
      using s' h c live old
      by (cases "chartCtor env")
        (auto simp add: initializeBookmakerChart_def newChart_def destroy_def console_log_def
          console_error_def Let_def split: js_error.splits)
    with s' one live show ?thesis by (simp add: destroy_def)
  qed
  with chart_inv_live [OF inv] show ?thesis by blast
qed

theorem at_most_one_live_chart_witness:
  "bookmakerChart (run [CallInitChart env_ok] (PresentationApp dom12)) = Some 0 \<and>
   canvasFound env_ok \<and>
   liveCharts (run [CallInitChart env_ok, CallInitChart env_ok] (PresentationApp dom12)) = [1] \<and>
   liveCharts (destroy 0 (run [CallInitChart env_ok] (PresentationApp dom12))) = [] \<and>
   (\<exists>s'. initializeBookmakerChart env_ok (run [CallInitChart env_ok] (PresentationApp dom12))
           = Inr s' \<and>
         0 \<notin> set (liveCharts s') \<and> bookmakerChart s' \<noteq> Some 0 \<and>
         length (liveCharts s') \<le> 1)"
proof -
  have a: "bookmakerChart (run [CallInitChart env_ok] (PresentationApp dom12)) = Some 0"
    by (simp add: initializeBookmakerChart_def newChart_def returned_def env_ok_def
        console_log_def PresentationApp_fields Let_def)
  have b: "canvasFound env_ok"
    by code_simp
  have c: "liveCharts (run [CallInitChart env_ok, CallInitChart env_ok] (PresentationApp dom12))
           = [1]"
    by (simp add: initializeBookmakerChart_def newChart_def destroy_def returned_def env_ok_def
        console_log_def PresentationApp_fields Let_def)
  from a b c at_most_one_live_chart [of "[CallInitChart env_ok]" dom12]
  show ?thesis by blast
qed

text \<open>
  C8. In every state after construction, a call of \<open>initializeBookmakerChart\<close> that
  finds the canvas returns to its caller whether the constructor throws or not. When the
  constructor throws, the error is written to the console, the reference is null and no
  chart is alive; when it constructs, the reference is the new chart and that chart alone
  is alive.
\<close>

theorem chart_after_construction_attempt:
  assumes "canvasFound env"
  shows "(\<forall>msg. chartCtor env = Throws (Error msg) \<longrightarrow>
            (\<exists>s'. initializeBookmakerChart env (run es (PresentationApp d)) = Inr s' \<and>
                  bookmakerChart s' = None \<and> liveCharts s' = [] \<and>
                  console s' = console (run es (PresentationApp d)) @
                                 [LogError [LogString ''Error creating chart:'',
                                            LogString msg]])) \<and>
         (chartCtor env = Constructs \<longrightarrow>
            (\<exists>s' h. initializeBookmakerChart env (run es (PresentationApp d)) = Inr s' \<and>
                    bookmakerChart s' = Some h \<and> liveCharts s' = [h]))"
proof -
  let ?s = "run es (PresentationApp d)"
  have inv: "chart_inv ?s"
    by (rule chart_inv_run [OF chart_inv_PresentationApp])
  have thr: "\<exists>s'. initializeBookmakerChart env ?s = Inr s' \<and> bookmakerChart s' = None \<and>
                 liveCharts s' = [] \<and>
                 console s' = console ?s @
                   [LogError [LogString ''Error creating chart:'', LogString msg]]"
    if "chartCtor env = Throws (Error msg)" for msg
    using that assms inv
    by (auto simp add: initializeBookmakerChart_def newChart_def destroy_def chart_inv_def
        console_error_def Let_def split: option.splits)
  have ok: "\<exists>s' h. initializeBookmakerChart env ?s = Inr s' \<and> bookmakerChart s' = Some h \<and>
                   liveCharts s' = [h]"
    if "chartCtor env = Constructs"
    using that assms inv
    by (auto simp add: initializeBookmakerChart_def newChart_def destroy_def chart_inv_def
        console_log_def Let_def split: option.splits)
  from thr ok show ?thesis by blast
qed

theorem chart_after_construction_attempt_witness:
  "canvasFound env_throws \<and>
   chartCtor env_throws = Throws (Error ''Canvas is already in use'') \<and>
   (\<exists>s'. initializeBookmakerChart env_throws
            (run [CallInitChart env_ok] (PresentationApp dom12)) = Inr s' \<and>
         bookmakerChart s' = None \<and> liveCharts s' = [] \<and>
         console s' = console (run [CallInitChart env_ok] (PresentationApp dom12)) @
                        [LogError [LogString ''Error creating chart:'',
                                   LogString ''Canvas is already in use'']]) \<and>
   canvasFound env_ok \<and> chartCtor env_ok = Constructs \<and>
   (\<exists>s' h. initializeBookmakerChart env_ok
              (run [CallInitChart env_ok] (PresentationApp dom12)) = Inr s' \<and>
           bookmakerChart s' = Some h \<and> liveCharts s' = [h])"
proof -
  have a: "canvasFound env_throws"
    by code_simp
  have b: "chartCtor env_throws = Throws (Error ''Canvas is already in use'')"
    by code_simp
  have c: "canvasFound env_ok"
    by code_simp
  have d: "chartCtor env_ok = Constructs"
    by code_simp
  from a b c d
    chart_after_construction_attempt [OF a, of "[CallInitChart env_ok]" dom12]
    chart_after_construction_attempt [OF c, of "[CallInitChart env_ok]" dom12]
  show ?thesis by blast
qed

section \<open>Properties of the arbitrage calculator\<close>

lemma sum_2_2:
  "fadd (fdiv (lit 1) (lit 2)) (fdiv (lit 1) (lit 2)) = Finite False 1"
  by (simp add: number_eval)

lemma sum_21_21:
  "fadd (fdiv (lit 1) (lit (21 / 10))) (fdiv (lit 1) (lit (21 / 10))) =
     Finite False (4289142502257615 / 4503599627370496)"
  by (simp add: number_eval)

lemma profit_21_21:
  "fmul (fdiv (fsub (lit 1) (Finite False (4289142502257615 / 4503599627370496)))
           (Finite False (4289142502257615 / 4503599627370496))) (lit 100) =
     Finite False (5629499534213127 / 1125899906842624)"
  by (simp add: number_eval)

lemma toFixed_21_21:
  "toFixed (Finite False (5629499534213127 / 1125899906842624)) 2 = ''5.00''"
  by (simp add: text_eval)

lemma sum_2_20001:
  "fadd (fdiv (lit 1) (lit 2)) (fdiv (lit 1) (lit (20001 / 10000))) =
     Finite False (9006974086018059 / 9007199254740992)"
  by (simp add: number_eval)

lemma profit_2_20001:
  "fmul (fdiv (fsub (lit 1) (Finite False (9006974086018059 / 9007199254740992)))
           (Finite False (9006974086018059 / 9007199254740992))) (lit 100) =
     Finite False (1441115852866217 / 576460752303423488)"
  by (simp add: number_eval)

lemma toFixed_2_20001:
  "toFixed (Finite False (1441115852866217 / 576460752303423488)) 2 = ''0.00''"
  by (simp add: text_eval)

lemma calculateArbitrageProfit_2_2:
  "calculateArbitrageProfit (lit 2) (lit 2) = JSNumber (lit 0)"
  unfolding calculateArbitrageProfit_def Let_def sum_2_2 by (simp add: lit_1)

lemma calculateArbitrageProfit_21_21:
  "calculateArbitrageProfit (lit (21 / 10)) (lit (21 / 10)) = JSString ''5.00''"
  unfolding calculateArbitrageProfit_def Let_def sum_21_21 profit_21_21 toFixed_21_21
  by (simp add: lit_1 signed_def)

lemma calculateArbitrageProfit_2_20001:
  "calculateArbitrageProfit (lit 2) (lit (20001 / 10000)) = JSString ''0.00''"
  unfolding calculateArbitrageProfit_def Let_def sum_2_20001 profit_2_20001 toFixed_2_20001
  by (simp add: lit_1 signed_def)

text \<open>
  C9, as stated, fails. The doubles \<open>2\<close> and \<open>2.0001\<close> have implied probabilities
  whose sum is below one, and the result is the string \<open>0.00\<close>, which is not the text
  of a number above zero.
\<close>

theorem calculateArbitrageProfit_not_positive:
  "flt (fadd (fdiv (lit 1) (lit 2)) (fdiv (lit 1) (lit (20001 / 10000)))) (lit 1) \<and>
   calculateArbitrageProfit (lit 2) (lit (20001 / 10000)) = JSString ''0.00'' \<and>
   \<not> positive_percentage (calculateArbitrageProfit (lit 2) (lit (20001 / 10000)))"
proof -
  have "flt (fadd (fdiv (lit 1) (lit 2)) (fdiv (lit 1) (lit (20001 / 10000)))) (lit 1)"
    unfolding sum_2_20001 by (simp add: lit_1 signed_def)
  moreover have "\<not> positive_percentage (JSString ''0.00'')"
    by (simp add: positive_percentage_def)
  ultimately show ?thesis
    by (simp add: calculateArbitrageProfit_2_20001)
qed

text \<open>
  C9, amended. \<open>calculateArbitrageProfit\<close> returns the number 0 whenever the sum of
  the implied probabilities, as computed, is at least one. When that sum is below one
  it returns a string, \<open>toFixed(2)\<close> of the profit percentage, and for odds above
  zero that percentage is above zero. The string is \<open>0.00\<close> whenever the percentage is
  a number below 0.005, and for odds above zero it is the text of a number above zero
  whenever the percentage is not below 0.005. For \<open>2.0\<close> and \<open>2.0\<close> it returns 0; for
  \<open>2.10\<close> and \<open>2.10\<close> it returns the string \<open>5.00\<close>.
\<close>

theorem calculateArbitrageProfit_zero_or_formatted_profit:
  "(fle (lit 1) (fadd (fdiv (lit 1) odds1) (fdiv (lit 1) odds2)) \<longrightarrow>
      calculateArbitrageProfit odds1 odds2 = JSNumber (lit 0)) \<and>
   (flt (fadd (fdiv (lit 1) odds1) (fdiv (lit 1) odds2)) (lit 1) \<longrightarrow>
      calculateArbitrageProfit odds1 odds2 =
        JSString (toFixed
          (fmul (fdiv (fsub (lit 1) (fadd (fdiv (lit 1) odds1) (fdiv (lit 1) odds2)))
                   (fadd (fdiv (lit 1) odds1) (fdiv (lit 1) odds2))) (lit 100)) 2)) \<and>
   (positive odds1 \<and> positive odds2 \<and>
    flt (fadd (fdiv (lit 1) odds1) (fdiv (lit 1) odds2)) (lit 1) \<longrightarrow>
      positive
        (fmul (fdiv (fsub (lit 1) (fadd (fdiv (lit 1) odds1) (fdiv (lit 1) odds2)))
                 (fadd (fdiv (lit 1) odds1) (fdiv (lit 1) odds2))) (lit 100))) \<and>
   (flt (fadd (fdiv (lit 1) odds1) (fdiv (lit 1) odds2)) (lit 1) \<longrightarrow>
      (\<forall>m. fmul (fdiv (fsub (lit 1) (fadd (fdiv (lit 1) odds1) (fdiv (lit 1) odds2)))
                   (fadd (fdiv (lit 1) odds1) (fdiv (lit 1) odds2))) (lit 100) =
              Finite False m \<and> m < 1 / 200 \<longrightarrow>
           calculateArbitrageProfit odds1 odds2 = JSString ''0.00'')) \<and>
   (positive odds1 \<and> positive odds2 \<and>
    flt (fadd (fdiv (lit 1) odds1) (fdiv (lit 1) odds2)) (lit 1) \<and>
    (\<forall>m. fmul (fdiv (fsub (lit 1) (fadd (fdiv (lit 1) odds1) (fdiv (lit 1) odds2)))
                 (fadd (fdiv (lit 1) odds1) (fdiv (lit 1) odds2))) (lit 100) =
            Finite False m \<longrightarrow> 1 / 200 \<le> m) \<longrightarrow>
      positive_percentage (calculateArbitrageProfit odds1 odds2)) \<and>
   calculateArbitrageProfit (lit 2) (lit 2) = JSNumber (lit 0) \<and>
   calculateArbitrageProfit (lit (21 / 10)) (lit (21 / 10)) = JSString ''5.00''"
proof -
  let ?t = "fadd (fdiv (lit 1) odds1) (fdiv (lit 1) odds2)"
  let ?p = "fmul (fdiv (fsub (lit 1) ?t) ?t) (lit 100)"
  have a: "calculateArbitrageProfit odds1 odds2 = JSNumber (lit 0)" if "fle (lit 1) ?t"
    using fle_not_flt [OF that] by (simp add: calculateArbitrageProfit_def Let_def)
  have b: "calculateArbitrageProfit odds1 odds2 = JSString (toFixed ?p 2)"
    if "flt ?t (lit 1)"
    using that by (simp add: calculateArbitrageProfit_def Let_def)
  have c: "positive ?p"
    if "positive odds1" "positive odds2" "flt ?t (lit 1)"
    by (rule profit_positive [OF _ _ that(3)])
      (rule fdiv_1_positive [OF that(1)], rule fdiv_1_positive [OF that(2)])
  have d: "calculateArbitrageProfit odds1 odds2 = JSString ''0.00''"
    if "flt ?t (lit 1)" "?p = Finite False m" "m < 1 / 200" for m
    unfolding b [OF that(1)] that(2) toFixed_2_small [OF that(3)] ..
  have e: "positive_percentage (calculateArbitrageProfit odds1 odds2)"
    if "positive odds1" "positive odds2" "flt ?t (lit 1)"
       "\<forall>m. ?p = Finite False m \<longrightarrow> 1 / 200 \<le> m"
    unfolding b [OF that(3)]
    by (rule toFixed_2_positive [OF c [OF that(1,2,3)] that(4)])
  from a b c d e calculateArbitrageProfit_2_2 calculateArbitrageProfit_21_21
  show ?thesis by blast
qed

theorem calculateArbitrageProfit_zero_or_formatted_profit_witness:
  "fle (lit 1) (fadd (fdiv (lit 1) (lit 3)) (fdiv (lit 1) (lit (3 / 2)))) \<and>
   calculateArbitrageProfit (lit 3) (lit (3 / 2)) = JSNumber (lit 0) \<and>
   positive (lit (5 / 2)) \<and> positive (lit (9 / 5)) \<and>
   flt (fadd (fdiv (lit 1) (lit (5 / 2))) (fdiv (lit 1) (lit (9 / 5)))) (lit 1) \<and>
   fmul (fdiv (fsub (lit 1) (fadd (fdiv (lit 1) (lit (5 / 2))) (fdiv (lit 1) (lit (9 / 5)))))
           (fadd (fdiv (lit 1) (lit (5 / 2))) (fdiv (lit 1) (lit (9 / 5))))) (lit 100) =
     Finite False (5236743752756385 / 1125899906842624) \<and>
   (1 :: rat) / 200 \<le> 5236743752756385 / 1125899906842624 \<and>
   calculateArbitrageProfit (lit (5 / 2)) (lit (9 / 5)) = JSString ''4.65'' \<and>
   positive
     (fmul (fdiv (fsub (lit 1) (fadd (fdiv (lit 1) (lit (5 / 2))) (fdiv (lit 1) (lit (9 / 5)))))
              (fadd (fdiv (lit 1) (lit (5 / 2))) (fdiv (lit 1) (lit (9 / 5))))) (lit 100)) \<and>
   positive_percentage (calculateArbitrageProfit (lit (5 / 2)) (lit (9 / 5))) \<and>
   flt (fadd (fdiv (lit 1) (lit 2)) (fdiv (lit 1) (lit (20001 / 10000)))) (lit 1) \<and>
   fmul (fdiv (fsub (lit 1) (fadd (fdiv (lit 1) (lit 2)) (fdiv (lit 1) (lit (20001 / 10000)))))
           (fadd (fdiv (lit 1) (lit 2)) (fdiv (lit 1) (lit (20001 / 10000))))) (lit 100) =
     Finite False (1441115852866217 / 576460752303423488) \<and>
   (1441115852866217 :: rat) / 576460752303423488 < 1 / 200 \<and>
   calculateArbitrageProfit (lit 2) (lit (20001 / 10000)) = JSString ''0.00''"
proof -
  have s1: "fadd (fdiv (lit 1) (lit 3)) (fdiv (lit 1) (lit (3 / 2))) = Finite False 1"
    by (simp add: number_eval)
  have a: "fle (lit 1) (fadd (fdiv (lit 1) (lit 3)) (fdiv (lit 1) (lit (3 / 2))))"
    unfolding s1 by (simp add: lit_1)
  have p1: "positive (lit (5 / 2))" and p2: "positive (lit (9 / 5))"
    by (simp_all add: number_eval positive_def)
  have s2: "fadd (fdiv (lit 1) (lit (5 / 2))) (fdiv (lit 1) (lit (9 / 5))) =
              Finite False (8606879287863615 / 9007199254740992)"
    by (simp add: number_eval)
  have b: "flt (fadd (fdiv (lit 1) (lit (5 / 2))) (fdiv (lit 1) (lit (9 / 5)))) (lit 1)"
    unfolding s2 by (simp add: lit_1 signed_def)
  have pr: "fmul (fdiv (fsub (lit 1) (Finite False (8606879287863615 / 9007199254740992)))
                   (Finite False (8606879287863615 / 9007199254740992))) (lit 100) =
              Finite False (5236743752756385 / 1125899906842624)"
    by (simp add: number_eval)
  have pr2: "fmul (fdiv (fsub (lit 1)
                 (fadd (fdiv (lit 1) (lit (5 / 2))) (fdiv (lit 1) (lit (9 / 5)))))
               (fadd (fdiv (lit 1) (lit (5 / 2))) (fdiv (lit 1) (lit (9 / 5))))) (lit 100) =
             Finite False (5236743752756385 / 1125899906842624)"
    unfolding s2 pr ..
  have big: "(1 :: rat) / 200 \<le> 5236743752756385 / 1125899906842624"
    by simp
  have all: "\<forall>m. fmul (fdiv (fsub (lit 1)
                 (fadd (fdiv (lit 1) (lit (5 / 2))) (fdiv (lit 1) (lit (9 / 5)))))
               (fadd (fdiv (lit 1) (lit (5 / 2))) (fdiv (lit 1) (lit (9 / 5))))) (lit 100) =
               Finite False m \<longrightarrow> 1 / 200 \<le> m"
    unfolding pr2 using big by simp
  have tf: "toFixed (Finite False (5236743752756385 / 1125899906842624)) 2 = ''4.65''"
    by (simp add: text_eval)
  have c: "flt (fadd (fdiv (lit 1) (lit 2)) (fdiv (lit 1) (lit (20001 / 10000)))) (lit 1)"
    unfolding sum_2_20001 by (simp add: lit_1 signed_def)
  have pr3: "fmul (fdiv (fsub (lit 1)
                 (fadd (fdiv (lit 1) (lit 2)) (fdiv (lit 1) (lit (20001 / 10000)))))
               (fadd (fdiv (lit 1) (lit 2)) (fdiv (lit 1) (lit (20001 / 10000))))) (lit 100) =
             Finite False (1441115852866217 / 576460752303423488)"
    unfolding sum_2_20001 profit_2_20001 ..
  have small: "(1441115852866217 :: rat) / 576460752303423488 < 1 / 200"
    by simp
  from calculateArbitrageProfit_zero_or_formatted_profit [of "lit 3" "lit (3 / 2)"] a
  have r1: "calculateArbitrageProfit (lit 3) (lit (3 / 2)) = JSNumber (lit 0)"
    by blast
  from calculateArbitrageProfit_zero_or_formatted_profit [of "lit (5 / 2)" "lit (9 / 5)"]
    p1 p2 b all
  have r2: "calculateArbitrageProfit (lit (5 / 2)) (lit (9 / 5)) =
        JSString (toFixed
          (fmul (fdiv (fsub (lit 1) (fadd (fdiv (lit 1) (lit (5 / 2))) (fdiv (lit 1) (lit (9 / 5)))))
                   (fadd (fdiv (lit 1) (lit (5 / 2))) (fdiv (lit 1) (lit (9 / 5))))) (lit 100)) 2)"
    and r3: "positive
        (fmul (fdiv (fsub (lit 1) (fadd (fdiv (lit 1) (lit (5 / 2))) (fdiv (lit 1) (lit (9 / 5)))))
                 (fadd (fdiv (lit 1) (lit (5 / 2))) (fdiv (lit 1) (lit (9 / 5))))) (lit 100))"
    and r4: "positive_percentage (calculateArbitrageProfit (lit (5 / 2)) (lit (9 / 5)))"
    by blast+
  have r2': "calculateArbitrageProfit (lit (5 / 2)) (lit (9 / 5)) = JSString ''4.65''"
    unfolding r2 s2 pr tf ..
  from calculateArbitrageProfit_zero_or_formatted_profit [of "lit 2" "lit (20001 / 10000)"]
    c pr3 small
  have r5: "calculateArbitrageProfit (lit 2) (lit (20001 / 10000)) = JSString ''0.00''"
    by blast
  from a r1 p1 p2 b pr2 big r2' r3 r4 c pr3 small r5 show ?thesis by blast
qed

text \<open>
  C10. The two branches return values of different types. When the sum of the implied
  probabilities, as computed, is below one the result is a string, \<open>toFixed(2)\<close> of the
  profit; when it is at least one the result is the number 0. A returned number is
  always 0, and comes with a sum that is not below one.
\<close>

theorem calculateArbitrageProfit_string_or_zero:
  "(flt (fadd (fdiv (lit 1) odds1) (fdiv (lit 1) odds2)) (lit 1) \<longrightarrow>
      calculateArbitrageProfit odds1 odds2 =
        JSString (toFixed
          (fmul (fdiv (fsub (lit 1) (fadd (fdiv (lit 1) odds1) (fdiv (lit 1) odds2)))
                   (fadd (fdiv (lit 1) odds1) (fdiv (lit 1) odds2))) (lit 100)) 2)) \<and>
   (fle (lit 1) (fadd (fdiv (lit 1) odds1) (fdiv (lit 1) odds2)) \<longrightarrow>
      calculateArbitrageProfit odds1 odds2 = JSNumber (lit 0)) \<and>
   (\<forall>n. calculateArbitrageProfit odds1 odds2 = JSNumber n \<longrightarrow>
      n = lit 0 \<and> \<not> flt (fadd (fdiv (lit 1) odds1) (fdiv (lit 1) odds2)) (lit 1))"
proof -
  let ?t = "fadd (fdiv (lit 1) odds1) (fdiv (lit 1) odds2)"
  show ?thesis
  proof (cases "flt ?t (lit 1)")
    case True
    then have "\<not> fle (lit 1) ?t" using fle_not_flt by blast
    with True show ?thesis by (simp add: calculateArbitrageProfit_def Let_def)
  next
    case False
    then show ?thesis by (simp add: calculateArbitrageProfit_def Let_def)
  qed
qed

theorem calculateArbitrageProfit_string_or_zero_witness:
  "flt (fadd (fdiv (lit 1) (lit 3)) (fdiv (lit 1) (lit 7))) (lit 1) \<and>
   calculateArbitrageProfit (lit 3) (lit 7) = JSString ''110.00'' \<and>
   fle (lit 1) (fadd (fdiv (lit 1) (lit 2)) (fdiv (lit 1) (lit 2))) \<and>
   calculateArbitrageProfit (lit 2) (lit 2) = JSNumber (lit 0)"
proof -
  have s1: "fadd (fdiv (lit 1) (lit 3)) (fdiv (lit 1) (lit 7)) =
              Finite False (4289142502257615 / 9007199254740992)"
    by (simp add: number_eval)
  have a: "flt (fadd (fdiv (lit 1) (lit 3)) (fdiv (lit 1) (lit 7))) (lit 1)"
    unfolding s1 by (simp add: lit_1 signed_def)
  have pr: "fmul (fdiv (fsub (lit 1) (Finite False (4289142502257615 / 9007199254740992)))
                   (Finite False (4289142502257615 / 9007199254740992))) (lit 100) =
              Finite False (7740561859543041 / 70368744177664)"
    by (simp add: number_eval)
  have tf: "toFixed (Finite False (7740561859543041 / 70368744177664)) 2 = ''110.00''"
    by (simp add: text_eval)
  have b: "fle (lit 1) (fadd (fdiv (lit 1) (lit 2)) (fdiv (lit 1) (lit 2)))"
    unfolding sum_2_2 by (simp add: lit_1)
  from calculateArbitrageProfit_string_or_zero [of "lit 3" "lit 7"] a
  have "calculateArbitrageProfit (lit 3) (lit 7) =
        JSString (toFixed
          (fmul (fdiv (fsub (lit 1) (fadd (fdiv (lit 1) (lit 3)) (fdiv (lit 1) (lit 7))))
                   (fadd (fdiv (lit 1) (lit 3)) (fdiv (lit 1) (lit 7)))) (lit 100)) 2)"
    by blast
  then have r1: "calculateArbitrageProfit (lit 3) (lit 7) = JSString ''110.00''"
    unfolding s1 pr tf .
  from calculateArbitrageProfit_string_or_zero [of "lit 2" "lit 2"] b
  have r2: "calculateArbitrageProfit (lit 2) (lit 2) = JSNumber (lit 0)"
    by blast
  from a r1 b r2 show ?thesis by blast
qed

end
